theory Spec2Isabelle
  imports Complex_Main
begin

section \<open>Rasters and the 2D canvas operations the program calls\<close>

text \<open>
  The program draws through the browser's 2D canvas. A pixel is modelled with exact
  rational channels in premultiplied form (the form of a canvas bitmap); the 8-bit
  rounding of a real bitmap is not modelled. A raster is a width, a height and the pixel
  at each \<open>(x, y)\<close>; only the pixels with \<open>x < width\<close> and \<open>y < height\<close> belong to it.
\<close>

record pixel =
  red :: rat
  green :: rat
  blue :: rat
  alpha :: rat

definition transparent :: pixel where
  "transparent = \<lparr>red = 0, green = 0, blue = 0, alpha = 0\<rparr>"

text \<open>
  Modelled from the spec: the browser's default compositing operator of \<open>drawImage\<close> and
  \<open>stroke\<close> (\<open>globalCompositeOperation\<close> is never changed by the program), which is not
  code of the repository. It is the standard alpha-over blend of a source pixel \<open>s\<close> over
  a destination pixel \<open>d\<close>, on premultiplied channels.
\<close>

definition source_over :: "pixel \<Rightarrow> pixel \<Rightarrow> pixel" where
  "source_over s d =
     \<lparr>red = red s + red d * (1 - alpha s),
      green = green s + green d * (1 - alpha s),
      blue = blue s + blue d * (1 - alpha s),
      alpha = alpha s + alpha d * (1 - alpha s)\<rparr>"

record raster =
  width :: nat
  height :: nat
  px :: "nat \<Rightarrow> nat \<Rightarrow> pixel"

text \<open>\<open>document.createElement('canvas')\<close>: a transparent bitmap of 300 by 150.\<close>

definition blank :: "nat \<Rightarrow> nat \<Rightarrow> raster" where
  "blank w h = \<lparr>width = w, height = h, px = (\<lambda>x y. transparent)\<rparr>"

definition createCanvas :: raster where
  "createCanvas = blank 300 150"

text \<open>Assigning \<open>canvas.width\<close> or \<open>canvas.height\<close> replaces the bitmap by a transparent one.\<close>

definition set_width :: "nat \<Rightarrow> raster \<Rightarrow> raster" where
  "set_width w cvs = blank w (height cvs)"

definition set_height :: "nat \<Rightarrow> raster \<Rightarrow> raster" where
  "set_height h cvs = blank (width cvs) h"

definition clearRect :: "nat \<Rightarrow> nat \<Rightarrow> nat \<Rightarrow> nat \<Rightarrow> raster \<Rightarrow> raster" where
  "clearRect x0 y0 w h cvs =
     cvs\<lparr>px := (\<lambda>x y. if x0 \<le> x \<and> x < x0 + w \<and> y0 \<le> y \<and> y < y0 + h
                         then transparent else px cvs x y)\<rparr>"

text \<open>
  \<open>ctx.drawImage(img, sx, sy, sw, sh, dx, dy, sw, sh)\<close>: the source rectangle, clipped to the
  source image, is composited onto the canvas at \<open>(dx, dy)\<close>. The program always passes
  the source size as destination size, so nothing is resampled; a source rectangle of
  width or height 0 paints nothing.
\<close>

definition drawImage_sub ::
    "raster \<Rightarrow> nat \<Rightarrow> nat \<Rightarrow> nat \<Rightarrow> nat \<Rightarrow> nat \<Rightarrow> nat \<Rightarrow> raster \<Rightarrow> raster" where
  "drawImage_sub img sx sy sw sh dx dy cvs =
     (if sw = 0 \<or> sh = 0 then cvs
      else cvs\<lparr>px := (\<lambda>x y.
        if dx \<le> x \<and> x < dx + sw \<and> dy \<le> y \<and> y < dy + sh
           \<and> x < width cvs \<and> y < height cvs
           \<and> sx + (x - dx) < width img \<and> sy + (y - dy) < height img
        then source_over (px img (sx + (x - dx)) (sy + (y - dy))) (px cvs x y)
        else px cvs x y)\<rparr>)"

text \<open>\<open>ctx.drawImage(img, dx, dy)\<close>: the whole image at its own size.\<close>

definition drawImage :: "raster \<Rightarrow> nat \<Rightarrow> nat \<Rightarrow> raster \<Rightarrow> raster" where
  "drawImage img dx dy cvs = drawImage_sub img 0 0 (width img) (height img) dx dy cvs"

text \<open>
  \<open>canvas.toDataURL('image/png')\<close>: the encoded image is identified with the raster it
  encodes, the pixels inside the canvas.
\<close>

definition toDataURL :: "raster \<Rightarrow> raster" where
  "toDataURL cvs =
     \<lparr>width = width cvs, height = height cvs,
      px = (\<lambda>x y. if x < width cvs \<and> y < height cvs then px cvs x y else transparent)\<rparr>"

section \<open>The grid partitioner: \<open>sliceImageGrid\<close> (services/geminiService.ts)\<close>

datatype slice_error = NoCanvasContext | ImageLoadFailed

text \<open>The source rectangle \<open>(sx, sy, sw, sh)\<close> that the loop body passes to \<open>drawImage\<close>.\<close>

definition cell_source :: "nat \<Rightarrow> nat \<Rightarrow> nat \<Rightarrow> nat \<Rightarrow> nat \<times> nat \<times> nat \<times> nat" where
  "cell_source pieceWidth pieceHeight r c = (c * pieceWidth, r * pieceHeight, pieceWidth, pieceHeight)"

definition covers :: "nat \<times> nat \<times> nat \<times> nat \<Rightarrow> nat \<Rightarrow> nat \<Rightarrow> bool" where
  "covers rect x y =
     (case rect of (sx, sy, sw, sh) \<Rightarrow> sx \<le> x \<and> x < sx + sw \<and> sy \<le> y \<and> y < sy + sh)"

text \<open>
  The inner loop \<open>for (let c = 0; c < cols; c++)\<close>. One canvas is reused for every piece:
  it is cleared, the cell is drawn at the origin and the canvas is encoded.
\<close>

function slice_cols ::
    "raster \<Rightarrow> nat \<Rightarrow> nat \<Rightarrow> nat \<Rightarrow> nat \<Rightarrow> nat \<Rightarrow> raster \<times> raster list \<Rightarrow> raster \<times> raster list" where
  "slice_cols img pieceWidth pieceHeight cols r c (canvas, pieces) =
     (if c < cols then
        (case cell_source pieceWidth pieceHeight r c of (sx, sy, sw, sh) \<Rightarrow>
           let canvas1 = clearRect 0 0 pieceWidth pieceHeight canvas;
               canvas2 = drawImage_sub img sx sy sw sh 0 0 canvas1
           in slice_cols img pieceWidth pieceHeight cols r (Suc c)
                (canvas2, pieces @ [toDataURL canvas2]))
      else (canvas, pieces))"
  by pat_completeness auto
termination
  by (relation "measure (\<lambda>(img, pw, ph, cols, r, c, st). cols - c)") auto

text \<open>The outer loop \<open>for (let r = 0; r < rows; r++)\<close>.\<close>

function slice_rows ::
    "raster \<Rightarrow> nat \<Rightarrow> nat \<Rightarrow> nat \<Rightarrow> nat \<Rightarrow> nat \<Rightarrow> raster \<times> raster list \<Rightarrow> raster \<times> raster list" where
  "slice_rows img pieceWidth pieceHeight rows cols r st =
     (if r < rows then
        slice_rows img pieceWidth pieceHeight rows cols (Suc r)
          (slice_cols img pieceWidth pieceHeight cols r 0 st)
      else st)"
  by pat_completeness auto
termination
  by (relation "measure (\<lambda>(img, pw, ph, rows, cols, r, st). rows - r)") auto

text \<open>
  \<open>sliceImageGrid\<close>. The first argument is the decoded image (\<open>None\<close> when \<open>img.onerror\<close>
  fires), the second tells whether \<open>canvas.getContext('2d')\<close> gave a context. The promise
  rejects (\<open>Inl\<close>) or resolves with the pieces (\<open>Inr\<close>). \<open>rows\<close> and \<open>cols\<close> are counts; for
  \<open>cols = 0\<close> or \<open>rows = 0\<close> JavaScript computes an infinite piece size, which the canvas
  takes as 0, and no loop body runs, as here.
\<close>

definition sliceImageGrid ::
    "raster option \<Rightarrow> bool \<Rightarrow> nat \<Rightarrow> nat \<Rightarrow> slice_error + raster list" where
  "sliceImageGrid decoded has_ctx rows cols =
     (case decoded of
        None \<Rightarrow> Inl ImageLoadFailed
      | Some img \<Rightarrow>
          let w = width img;
              h = height img;
              pieceWidth = w div cols;
              pieceHeight = h div rows;
              canvas = set_height pieceHeight (set_width pieceWidth createCanvas)
          in if \<not> has_ctx then Inl NoCanvasContext
             else Inr (snd (slice_rows img pieceWidth pieceHeight rows cols 0 (canvas, []))))"


section \<open>The caller of the partitioner (App.tsx, services/geminiService.ts)\<close>

record generated_image =
  image_id :: string
  url :: raster
  fullGridUrl :: "raster option"
  prompt :: string
  aspectRatio :: string
  timestamp :: nat

datatype grid_error = NoGridImage | SliceFailed slice_error

text \<open>
  \<open>generateMultiViewGrid\<close>, after the call to the generation service: \<open>response\<close> is the
  image part of the answer (\<open>None\<close> when there is none), \<open>decodable\<close> tells whether the
  browser decodes it. It returns the full image and all \<open>gridRows * gridCols\<close> panels.
\<close>

definition generateMultiViewGrid ::
    "raster option \<Rightarrow> bool \<Rightarrow> bool \<Rightarrow> nat \<Rightarrow> nat \<Rightarrow> grid_error + raster \<times> raster list" where
  "generateMultiViewGrid response decodable has_ctx gridRows gridCols =
     (case response of
        None \<Rightarrow> Inl NoGridImage
      | Some fullImage \<Rightarrow>
          (case sliceImageGrid (if decodable then Some fullImage else None) has_ctx gridRows gridCols of
             Inl e \<Rightarrow> Inl (SliceFailed e)
           | Inr panels \<Rightarrow> Inr (fullImage, panels)))"

text \<open>\<open>xs.slice(0, end)\<close> for a count \<open>end\<close>.\<close>

definition slice0 :: "nat \<Rightarrow> 'a list \<Rightarrow> 'a list" where
  "slice0 end_index xs = take end_index xs"

text \<open>
  \<open>generateAndAddImage\<close>, up to the list \<open>newImages\<close> that is added to the application's
  images. \<open>uuid\<close> gives the identifier drawn for each index.
\<close>

definition generateAndAddImage ::
    "raster option \<Rightarrow> bool \<Rightarrow> bool \<Rightarrow> (nat \<Rightarrow> string) \<Rightarrow> string \<Rightarrow> nat \<Rightarrow> nat \<Rightarrow> nat
      \<Rightarrow> string \<Rightarrow> nat \<Rightarrow> string \<Rightarrow> grid_error + generated_image list" where
  "generateAndAddImage response decodable has_ctx uuid genPrompt rows cols count ar idBase labelPrefix =
     (case generateMultiViewGrid response decodable has_ctx rows cols of
        Inl e \<Rightarrow> Inl e
      | Inr (fullImage, result_slices) \<Rightarrow>
          let slices = slice0 count result_slices
          in Inr (map (\<lambda>(index, u).
                    \<lparr>image_id = uuid index, url = u, fullGridUrl = Some fullImage,
                     prompt = ''['' @ labelPrefix @ ''] '' @ take 50 genPrompt @ ''...'',
                     aspectRatio = ar, timestamp = idBase\<rparr>)
                  (enumerate 0 slices)))"

section \<open>JavaScript numbers in the coordinate arithmetic\<close>

text \<open>
  Coordinates are JavaScript numbers: IEEE 754 doubles. A finite double is modelled by the
  rational it denotes; the sign of zero is not modelled. Each arithmetic operation gives the
  exact result rounded to the nearest double, ties to the even significand.
\<close>

datatype jsnum = Num rat | PosInf | NegInf | NaN

text \<open>Rounding to the nearest integer, a tie to the even one.\<close>

definition round_half_even :: "rat \<Rightarrow> int" where
  "round_half_even s =
     (let f = \<lfloor>s\<rfloor>; d = s - of_int f
      in if d < 1 / 2 then f else if 1 / 2 < d then f + 1 else if even f then f else f + 1)"

text \<open>
  The binary exponent of a positive rational \<open>a\<close>: the \<open>e\<close> with \<open>2 ^ e \<le> a < 2 ^ (e + 1)\<close>,
  found by halving or doubling \<open>a\<close>. The 2200 steps reach the exact difference, product and
  quotient of any two doubles, which lie between \<open>2 ^ (- 2148)\<close> and \<open>2 ^ 2098\<close>.
\<close>

fun binade_from :: "nat \<Rightarrow> rat \<Rightarrow> int \<Rightarrow> int" where
  "binade_from 0 a e = e"
| "binade_from (Suc n) a e =
     (if 2 \<le> a then binade_from n (a / 2) (e + 1)
      else if a < 1 then binade_from n (a * 2) (e - 1)
      else e)"

definition binade :: "rat \<Rightarrow> int" where
  "binade x = binade_from 2200 \<bar>x\<bar> 0"

text \<open>
  The double nearest to the exact result \<open>x\<close>: a significand of 53 bits, the exponent not
  below that of the subnormal numbers (\<open>- 1022\<close>), and an infinity when the rounded value
  reaches \<open>2 ^ 1024\<close>.
\<close>

definition fl :: "rat \<Rightarrow> jsnum" where
  "fl x =
     (if x = 0 then Num 0
      else
        let e = max (binade x) (- 1022);
            u = 2 powi (e - 52);
            y = of_int (round_half_even (\<bar>x\<bar> / u)) * u
        in if 2 ^ 1024 \<le> y then (if 0 < x then PosInf else NegInf)
           else Num (if 0 < x then y else - y))"

text \<open>
  \<open>a / b\<close> for two finite numbers, as in \<open>canvas.width / rect.width\<close> and
  \<open>canvas.width / 1000\<close>: a division by zero gives an infinity or \<open>NaN\<close>.
\<close>

definition js_div :: "rat \<Rightarrow> rat \<Rightarrow> jsnum" where
  "js_div a b =
     (if b = 0 then (if a = 0 then NaN else if 0 < a then PosInf else NegInf)
      else fl (a / b))"

fun js_mul :: "jsnum \<Rightarrow> jsnum \<Rightarrow> jsnum" where
  "js_mul (Num a) (Num b) = fl (a * b)"
| "js_mul NaN _ = NaN"
| "js_mul _ NaN = NaN"
| "js_mul (Num a) PosInf = (if a = 0 then NaN else if 0 < a then PosInf else NegInf)"
| "js_mul (Num a) NegInf = (if a = 0 then NaN else if 0 < a then NegInf else PosInf)"
| "js_mul PosInf (Num b) = (if b = 0 then NaN else if 0 < b then PosInf else NegInf)"
| "js_mul NegInf (Num b) = (if b = 0 then NaN else if 0 < b then NegInf else PosInf)"
| "js_mul PosInf PosInf = PosInf"
| "js_mul PosInf NegInf = NegInf"
| "js_mul NegInf PosInf = NegInf"
| "js_mul NegInf NegInf = PosInf"

fun js_sub :: "jsnum \<Rightarrow> jsnum \<Rightarrow> jsnum" where
  "js_sub (Num a) (Num b) = fl (a - b)"
| "js_sub NaN _ = NaN"
| "js_sub _ NaN = NaN"
| "js_sub PosInf PosInf = NaN"
| "js_sub NegInf NegInf = NaN"
| "js_sub PosInf _ = PosInf"
| "js_sub NegInf _ = NegInf"
| "js_sub (Num a) PosInf = NegInf"
| "js_sub (Num a) NegInf = PosInf"

section \<open>The canvas element and its 2D context\<close>

datatype path_cmd = MoveTo rat rat | LineTo rat rat | RectPath rat rat rat rat

record context2d =
  strokeStyle :: string
  lineWidth :: rat
  lineCap :: string
  lineJoin :: string
  path :: "path_cmd list"

definition default_context :: context2d where
  "default_context =
     \<lparr>strokeStyle = ''#000000'', lineWidth = 1, lineCap = ''butt'', lineJoin = ''miter'', path = []\<rparr>"

record canvas_element =
  bitmap :: raster
  ctx :: context2d

text \<open>A canvas element as React mounts it.\<close>

definition new_canvas :: canvas_element where
  "new_canvas = \<lparr>bitmap = createCanvas, ctx = default_context\<rparr>"

text \<open>Assigning a dimension of a canvas element also resets its context.\<close>

definition assign_width :: "nat \<Rightarrow> canvas_element \<Rightarrow> canvas_element" where
  "assign_width w cvs = \<lparr>bitmap = set_width w (bitmap cvs), ctx = default_context\<rparr>"

definition assign_height :: "nat \<Rightarrow> canvas_element \<Rightarrow> canvas_element" where
  "assign_height h cvs = \<lparr>bitmap = set_height h (bitmap cvs), ctx = default_context\<rparr>"

definition ctx_clearRect :: "nat \<Rightarrow> nat \<Rightarrow> nat \<Rightarrow> nat \<Rightarrow> canvas_element \<Rightarrow> canvas_element" where
  "ctx_clearRect x0 y0 w h cvs = cvs\<lparr>bitmap := clearRect x0 y0 w h (bitmap cvs)\<rparr>"

definition beginPath :: "canvas_element \<Rightarrow> canvas_element" where
  "beginPath cvs = cvs\<lparr>ctx := (ctx cvs)\<lparr>path := []\<rparr>\<rparr>"

text \<open>\<open>moveTo\<close>, \<open>lineTo\<close> and \<open>rect\<close> ignore a call with an infinite or \<open>NaN\<close> argument.\<close>

definition moveTo :: "jsnum \<Rightarrow> jsnum \<Rightarrow> canvas_element \<Rightarrow> canvas_element" where
  "moveTo x y cvs =
     (case (x, y) of
        (Num a, Num b) \<Rightarrow> cvs\<lparr>ctx := (ctx cvs)\<lparr>path := path (ctx cvs) @ [MoveTo a b]\<rparr>\<rparr>
      | _ \<Rightarrow> cvs)"

definition lineTo :: "jsnum \<Rightarrow> jsnum \<Rightarrow> canvas_element \<Rightarrow> canvas_element" where
  "lineTo x y cvs =
     (case (x, y) of
        (Num a, Num b) \<Rightarrow> cvs\<lparr>ctx := (ctx cvs)\<lparr>path := path (ctx cvs) @ [LineTo a b]\<rparr>\<rparr>
      | _ \<Rightarrow> cvs)"

definition rect :: "jsnum \<Rightarrow> jsnum \<Rightarrow> jsnum \<Rightarrow> jsnum \<Rightarrow> canvas_element \<Rightarrow> canvas_element" where
  "rect x y w h cvs =
     (case (x, y, w, h) of
        (Num a, Num b, Num c, Num d) \<Rightarrow>
          cvs\<lparr>ctx := (ctx cvs)\<lparr>path := path (ctx cvs) @ [RectPath a b c d]\<rparr>\<rparr>
      | _ \<Rightarrow> cvs)"

text \<open>
  Assigning \<open>ctx.lineWidth\<close>: a value that is not a finite number greater than zero is
  ignored.
\<close>

definition assign_lineWidth :: "jsnum \<Rightarrow> canvas_element \<Rightarrow> canvas_element" where
  "assign_lineWidth v cvs =
     (case v of
        Num a \<Rightarrow> if 0 < a then cvs\<lparr>ctx := (ctx cvs)\<lparr>lineWidth := a\<rparr>\<rparr> else cvs
      | _ \<Rightarrow> cvs)"

text \<open>
  \<open>ctx.stroke()\<close>. How the browser rasterises the outline of a path is a parameter: a
  renderer gives, for the drawing state (path, style, line width, caps and joins), the
  paint of every pixel. \<open>stroke\<close> composites that paint onto the pixels of the bitmap.
\<close>

type_synonym renderer = "context2d \<Rightarrow> nat \<Rightarrow> nat \<Rightarrow> pixel"

definition stroke :: "renderer \<Rightarrow> canvas_element \<Rightarrow> canvas_element" where
  "stroke rnd cvs =
     cvs\<lparr>bitmap := (bitmap cvs)\<lparr>px := (\<lambda>x y.
        if x < width (bitmap cvs) \<and> y < height (bitmap cvs)
        then source_over (rnd (ctx cvs) x y) (px (bitmap cvs) x y)
        else px (bitmap cvs) x y)\<rparr>\<rparr>"

text \<open>
  \<open>ctx.getImageData(0, 0, sw, sh)\<close> throws an \<open>IndexSizeError\<close> (\<open>None\<close>) when \<open>sw\<close> or \<open>sh\<close> is
  0; otherwise it copies the pixels, transparent outside the canvas.
\<close>

definition getImageData :: "nat \<Rightarrow> nat \<Rightarrow> canvas_element \<Rightarrow> raster option" where
  "getImageData sw sh cvs =
     (if sw = 0 \<or> sh = 0 then None
      else Some \<lparr>width = sw, height = sh,
                 px = (\<lambda>x y. if x < sw \<and> y < sh \<and> x < width (bitmap cvs) \<and> y < height (bitmap cvs)
                               then px (bitmap cvs) x y else transparent)\<rparr>)"

text \<open>\<open>ctx.putImageData(data, 0, 0)\<close> replaces the pixels the data covers, without blending.\<close>

definition putImageData :: "raster \<Rightarrow> canvas_element \<Rightarrow> canvas_element" where
  "putImageData data cvs =
     cvs\<lparr>bitmap := (bitmap cvs)\<lparr>px := (\<lambda>x y.
        if x < width data \<and> y < height data \<and> x < width (bitmap cvs) \<and> y < height (bitmap cvs)
        then px data x y else px (bitmap cvs) x y)\<rparr>\<rparr>"

datatype js_exception = IndexSizeError | InvalidStateError

text \<open>
  \<open>ctx.drawImage(canvas, 0, 0)\<close> with a canvas as source: a source canvas of width or height
  0 makes the call throw an \<open>InvalidStateError\<close> (\<open>None\<close>).
\<close>

definition drawImage_canvas :: "raster \<Rightarrow> raster \<Rightarrow> raster option" where
  "drawImage_canvas source cvs =
     (if width source = 0 \<or> height source = 0 then None else Some (drawImage source 0 0 cvs))"

section \<open>The image element\<close>

text \<open>
  An \<open>img\<close> element. \<open>src\<close> is the image its \<open>src\<close> attribute names, identified with the raster
  that the image decodes to. \<open>shown\<close> is the image the element presents at the moment: none
  until the load of a first image has completed, and after a change of \<open>src\<close> still the
  former image until the new one has been loaded. An image that fails to load is not
  modelled.
\<close>

record img_element =
  src :: raster
  shown :: "raster option"

text \<open>\<open>img.naturalWidth\<close> and \<open>img.naturalHeight\<close> are 0 while no image is presented.\<close>

definition naturalWidth :: "img_element \<Rightarrow> nat" where
  "naturalWidth el = (case shown el of None \<Rightarrow> 0 | Some i \<Rightarrow> width i)"

definition naturalHeight :: "img_element \<Rightarrow> nat" where
  "naturalHeight el = (case shown el of None \<Rightarrow> 0 | Some i \<Rightarrow> height i)"

text \<open>
  The browser creates the element for a \<open>src\<close>, or is given a new \<open>src\<close> for an element.
  \<open>available\<close> says whether it has the image at hand (in its list of available images), so
  that the element presents it at once; otherwise the image is fetched and decoded later.
\<close>

definition create_img :: "bool \<Rightarrow> raster \<Rightarrow> img_element" where
  "create_img available u = \<lparr>src = u, shown = (if available then Some u else None)\<rparr>"

definition assign_src :: "bool \<Rightarrow> raster \<Rightarrow> img_element \<Rightarrow> img_element" where
  "assign_src available u el =
     (if src el = u then el
      else \<lparr>src = u, shown = (if available then Some u else shown el)\<rparr>)"

text \<open>The load of the image of \<open>src\<close> completes.\<close>

definition load_completes :: "img_element \<Rightarrow> img_element" where
  "load_completes el = el\<lparr>shown := Some (src el)\<rparr>"

text \<open>
  \<open>ctx.drawImage(img, 0, 0)\<close> with an image element as source: an element that presents no
  image, or one of width or height 0, is not drawn, and nothing is thrown.
\<close>

definition drawImage_element :: "img_element \<Rightarrow> raster \<Rightarrow> raster" where
  "drawImage_element el cvs =
     (case shown el of
        None \<Rightarrow> cvs
      | Some i \<Rightarrow> if width i = 0 \<or> height i = 0 then cvs else drawImage i 0 0 cvs)"

section \<open>Pointer events and the coordinate mapper: \<open>getCoordinates\<close>\<close>

record dom_rect =
  rect_left :: rat
  rect_top :: rat
  rect_width :: rat
  rect_height :: rat

record mouse_event =
  clientX :: rat
  clientY :: rat

text \<open>
  \<open>getCoordinates\<close> is written twice, with the same body, in the gallery and in the mask
  editor. Its inputs are the two refs, the rectangle that \<open>getBoundingClientRect\<close> returns
  for the canvas, and the event. \<open>canvas.width\<close> and \<open>canvas.height\<close> are unsigned 32-bit
  integers, which a double holds exactly.
\<close>

definition getCoordinates ::
    "canvas_element option \<Rightarrow> img_element option \<Rightarrow> dom_rect \<Rightarrow> mouse_event \<Rightarrow> jsnum \<times> jsnum" where
  "getCoordinates canvasRef_current imageRef_current r e =
     (case canvasRef_current of
        None \<Rightarrow> (Num 0, Num 0)
      | Some canvas \<Rightarrow>
          (case imageRef_current of
             None \<Rightarrow> (Num 0, Num 0)
           | Some img \<Rightarrow>
               let scaleX = js_div (of_nat (width (bitmap canvas))) (rect_width r);
                   scaleY = js_div (of_nat (height (bitmap canvas))) (rect_height r)
               in (js_mul (js_sub (Num (clientX e)) (Num (rect_left r))) scaleX,
                   js_mul (js_sub (Num (clientY e)) (Num (rect_top r))) scaleY)))"

section \<open>The gallery's paint session (the \<open>Gallery\<close> component)\<close>

datatype tool = Brush | Rect

text \<open>
  The state of the component: its React state, its refs, and what it sees of its
  environment (the rectangle of the canvas on screen, whether \<open>getContext('2d')\<close> gives a
  context, whether the \<open>onAddImage\<close> prop is passed). \<open>added\<close> collects the images handed to
  \<open>onAddImage\<close>, \<open>uncaught\<close> the exceptions that leave a handler.
\<close>

record gallery =
  previewImage :: "generated_image option"
  isPainting :: bool
  activeTool :: tool
  brushSize :: rat
  isDrawing :: bool
  canvasRef :: "canvas_element option"
  imageRef :: "img_element option"
  snapshotRef :: "raster option"
  startPosRef :: "jsnum \<times> jsnum"
  clientRect :: dom_rect
  context_ok :: bool
  onAddImage :: bool
  added :: "generated_image list"
  uncaught :: "js_exception list"

definition gallery_init :: "bool \<Rightarrow> bool \<Rightarrow> dom_rect \<Rightarrow> gallery" where
  "gallery_init has_onAddImage ok r =
     \<lparr>previewImage = None, isPainting = False, activeTool = Brush, brushSize = 20,
      isDrawing = False, canvasRef = None, imageRef = None, snapshotRef = None,
      startPosRef = (Num 0, Num 0), clientRect = r, context_ok = ok,
      onAddImage = has_onAddImage, added = [], uncaught = []\<rparr>"

text \<open>
  The commit of a render: the lightbox, with its image and its canvas, is on the page
  exactly while \<open>previewImage\<close> is set. A canvas that stays mounted keeps its bitmap; a
  newly mounted one is fresh. The image element is given \<open>previewImage.url\<close> as its \<open>src\<close>;
  \<open>available\<close> matters only when that is a new \<open>src\<close>.
\<close>

definition mount :: "bool \<Rightarrow> gallery \<Rightarrow> gallery" where
  "mount available g =
     (case previewImage g of
        None \<Rightarrow> g\<lparr>canvasRef := None, imageRef := None\<rparr>
      | Some preview \<Rightarrow>
          g\<lparr>canvasRef := (case canvasRef g of None \<Rightarrow> Some new_canvas | Some cvs \<Rightarrow> Some cvs),
            imageRef := (case imageRef g of
                           None \<Rightarrow> Some (create_img available (url preview))
                         | Some el \<Rightarrow> Some (assign_src available (url preview) el))\<rparr>)"

text \<open>The body of the effect "Initialize canvas when entering painting mode".\<close>

definition sizeCanvasEffect :: "gallery \<Rightarrow> gallery" where
  "sizeCanvasEffect g =
     (case previewImage g of
        None \<Rightarrow> g
      | Some preview \<Rightarrow>
          (case imageRef g of
             None \<Rightarrow> g
           | Some img \<Rightarrow>
               (case canvasRef g of
                  None \<Rightarrow> g
                | Some cvs \<Rightarrow>
                    if width (bitmap cvs) \<noteq> naturalWidth img
                       \<or> height (bitmap cvs) \<noteq> naturalHeight img then
                      let cvs1 = assign_width (naturalWidth img) cvs;
                          cvs2 = assign_height (naturalHeight img) cvs1;
                          cvs3 = (if context_ok g
                                  then ctx_clearRect 0 0 (width (bitmap cvs2)) (height (bitmap cvs2)) cvs2
                                  else cvs2)
                      in g\<lparr>canvasRef := Some cvs3\<rparr>
                    else g)))"

text \<open>
  A state update re-renders the component; the effect runs again when one of its
  dependencies \<open>[previewImage, isPainting]\<close> has changed.
\<close>

definition rerender :: "bool \<Rightarrow> gallery \<Rightarrow> gallery \<Rightarrow> gallery" where
  "rerender available old new =
     (let committed = mount available new
      in if previewImage old \<noteq> previewImage new \<or> isPainting old \<noteq> isPainting new
         then sizeCanvasEffect committed else committed)"

definition handleImageClick :: "generated_image \<Rightarrow> bool \<Rightarrow> gallery \<Rightarrow> gallery" where
  "handleImageClick img available g =
     rerender available g (g\<lparr>previewImage := Some img, isPainting := False, activeTool := Brush\<rparr>)"

text \<open>\<open>setPreviewImage(null)\<close>: the backdrop, the close button and the delete button.\<close>

definition closePreview :: "gallery \<Rightarrow> gallery" where
  "closePreview g = rerender False g (g\<lparr>previewImage := None\<rparr>)"

definition togglePainting :: "gallery \<Rightarrow> gallery" where
  "togglePainting g = rerender False g (g\<lparr>isPainting := \<not> isPainting g\<rparr>)"

text \<open>
  The browser completes the load of the image of the lightbox. The gallery's \<open>img\<close> has no
  \<open>onLoad\<close> handler: nothing is rendered again and no effect runs.
\<close>

definition imageDecoded :: "gallery \<Rightarrow> gallery" where
  "imageDecoded g =
     (case imageRef g of
        None \<Rightarrow> g
      | Some el \<Rightarrow> g\<lparr>imageRef := Some (load_completes el)\<rparr>)"

definition startDrawing :: "mouse_event \<Rightarrow> gallery \<Rightarrow> gallery" where
  "startDrawing e g =
     (if \<not> isPainting g then g
      else
        let g1 = g\<lparr>isDrawing := True\<rparr>;
            (x, y) = getCoordinates (canvasRef g) (imageRef g) (clientRect g) e
        in case (if context_ok g then canvasRef g else None) of
             None \<Rightarrow> g1
           | Some cvs \<Rightarrow>
               (case getImageData (width (bitmap cvs)) (height (bitmap cvs)) cvs of
                  None \<Rightarrow> g1\<lparr>uncaught := uncaught g1 @ [IndexSizeError]\<rparr>
                | Some snapshot \<Rightarrow>
                    let cvs1 = cvs\<lparr>ctx := (ctx cvs)\<lparr>strokeStyle := ''rgba(0, 255, 0, 0.8)''\<rparr>\<rparr>;
                        cvs2 = assign_lineWidth
                                 (js_mul (Num (brushSize g))
                                    (js_div (of_nat (width (bitmap cvs))) 1000)) cvs1;
                        cvs3 = cvs2\<lparr>ctx := (ctx cvs2)\<lparr>lineCap := ''round'', lineJoin := ''round''\<rparr>\<rparr>;
                        cvs4 = (if activeTool g = Brush then moveTo x y (beginPath cvs3) else cvs3)
                    in g1\<lparr>snapshotRef := Some snapshot, startPosRef := (x, y),
                          canvasRef := Some cvs4\<rparr>))"

definition draw :: "renderer \<Rightarrow> mouse_event \<Rightarrow> gallery \<Rightarrow> gallery" where
  "draw rnd e g =
     (if \<not> isDrawing g \<or> \<not> isPainting g then g
      else
        let (x, y) = getCoordinates (canvasRef g) (imageRef g) (clientRect g) e
        in case (if context_ok g then canvasRef g else None) of
             None \<Rightarrow> g
           | Some cvs \<Rightarrow>
               if activeTool g = Brush then
                 g\<lparr>canvasRef := Some (stroke rnd (lineTo x y cvs))\<rparr>
               else
                 (case snapshotRef g of
                    None \<Rightarrow> g
                  | Some snapshot \<Rightarrow>
                      let cvs1 = putImageData snapshot cvs;
                          startX = fst (startPosRef g);
                          startY = snd (startPosRef g);
                          w = js_sub x startX;
                          h = js_sub y startY;
                          cvs2 = stroke rnd (rect startX startY w h (beginPath cvs1))
                      in g\<lparr>canvasRef := Some cvs2\<rparr>))"

definition stopDrawing :: "gallery \<Rightarrow> gallery" where
  "stopDrawing g = g\<lparr>isDrawing := False\<rparr>"

text \<open>
  \<open>handleSaveComposite\<close>; \<open>uuid\<close> and \<open>now\<close> are what \<open>crypto.randomUUID()\<close> and \<open>Date.now()\<close>
  return. Each \<open>return\<close> of the source leaves the state as it is.
\<close>

definition handleSaveComposite :: "string \<Rightarrow> nat \<Rightarrow> gallery \<Rightarrow> gallery" where
  "handleSaveComposite uuid now g =
     (case previewImage g of
        None \<Rightarrow> g
      | Some preview \<Rightarrow>
          (case canvasRef g of
             None \<Rightarrow> g
           | Some cvs \<Rightarrow>
               (case imageRef g of
                  None \<Rightarrow> g
                | Some img \<Rightarrow>
                    if \<not> onAddImage g then g
                    else
                      let tempCanvas = set_height (naturalHeight img)
                                         (set_width (naturalWidth img) createCanvas)
                      in if \<not> context_ok g then g
                         else
                           (case drawImage_canvas (bitmap cvs) (drawImage_element img tempCanvas) of
                              None \<Rightarrow> g\<lparr>uncaught := uncaught g @ [InvalidStateError]\<rparr>
                            | Some temp2 \<Rightarrow>
                                let dataUrl = toDataURL temp2;
                                    newImage =
                                      \<lparr>image_id = uuid, url = dataUrl, fullGridUrl = None,
                                       prompt = ''[MASKED] '' @ prompt preview,
                                       aspectRatio = aspectRatio preview, timestamp = now\<rparr>
                                in rerender False g
                                     (g\<lparr>added := added g @ [newImage],
                                        previewImage := None\<rparr>)))))"

text \<open>
  The events of the component. A control takes events only while it is rendered: the
  toolbar and the canvas belong to the lightbox, the tool buttons and the size slider are
  shown in painting mode, the save button in painting mode when \<open>onAddImage\<close> is passed,
  and the canvas takes pointer events in painting mode only (\<open>pointer-events-none\<close> otherwise;
  \<open>startDrawing\<close> and \<open>draw\<close> test the mode themselves).
  \<open>ImageClick img available\<close> is a click on a thumbnail, with whether the browser has the
  image at hand for the lightbox; \<open>ImageDecoded\<close> is the end of the load of the image of the
  lightbox; \<open>Layout\<close> is a change of the rectangle the canvas takes on screen.
\<close>

datatype gallery_event =
    ImageClick generated_image bool
  | ImageDecoded
  | ClosePreview
  | TogglePainting
  | SetActiveTool tool
  | SetBrushSize rat
  | MouseDown mouse_event
  | MouseMove mouse_event
  | MouseUp
  | MouseLeave
  | SaveComposite string nat
  | Layout dom_rect

definition gallery_step :: "renderer \<Rightarrow> gallery_event \<Rightarrow> gallery \<Rightarrow> gallery" where
  "gallery_step rnd ev g =
     (case ev of
        ImageClick img available \<Rightarrow> handleImageClick img available g
      | Layout r \<Rightarrow> g\<lparr>clientRect := r\<rparr>
      | _ \<Rightarrow>
          if previewImage g = None then g
          else
            (case ev of
               ImageDecoded \<Rightarrow> imageDecoded g
             | ClosePreview \<Rightarrow> closePreview g
             | TogglePainting \<Rightarrow> togglePainting g
             | SetActiveTool t \<Rightarrow> if isPainting g then g\<lparr>activeTool := t\<rparr> else g
             | SetBrushSize n \<Rightarrow> if isPainting g then g\<lparr>brushSize := n\<rparr> else g
             | MouseDown e \<Rightarrow> startDrawing e g
             | MouseMove e \<Rightarrow> draw rnd e g
             | MouseUp \<Rightarrow> if isPainting g then stopDrawing g else g
             | MouseLeave \<Rightarrow> if isPainting g then stopDrawing g else g
             | SaveComposite uuid now \<Rightarrow>
                 if onAddImage g \<and> isPainting g then handleSaveComposite uuid now g else g
             | _ \<Rightarrow> g))"

fun gallery_run :: "renderer \<Rightarrow> gallery_event list \<Rightarrow> gallery \<Rightarrow> gallery" where
  "gallery_run rnd [] g = g"
| "gallery_run rnd (ev # evs) g = gallery_run rnd evs (gallery_step rnd ev g)"

section \<open>The mask editor (the \<open>MaskEditor\<close> component of DirectorDeck.tsx)\<close>

text \<open>
  The component is mounted with its image and its canvas and shows one \<open>imageUrl\<close>; saving
  or cancelling makes the parent unmount it. \<open>saved\<close> collects the images handed to
  \<open>onSave\<close>. \<open>available\<close> says whether the browser has the image at hand when the element is
  created; the \<open>load\<close> event reaches the component later in either case.
\<close>

record mask_editor =
  me_brushSize :: rat
  me_isDrawing :: bool
  imgLoaded :: bool
  me_canvasRef :: "canvas_element option"
  me_imageRef :: "img_element option"
  me_clientRect :: dom_rect
  me_context_ok :: bool
  saved :: "raster list"
  me_uncaught :: "js_exception list"

definition mask_editor_init :: "raster \<Rightarrow> bool \<Rightarrow> bool \<Rightarrow> dom_rect \<Rightarrow> mask_editor" where
  "mask_editor_init imageUrl available ok r =
     \<lparr>me_brushSize = 20, me_isDrawing = False, imgLoaded = False,
      me_canvasRef = Some new_canvas, me_imageRef = Some (create_img available imageUrl),
      me_clientRect = r, me_context_ok = ok, saved = [], me_uncaught = []\<rparr>"

text \<open>The body of the effect with the dependency \<open>[imgLoaded]\<close>.\<close>

definition me_sizeCanvasEffect :: "mask_editor \<Rightarrow> mask_editor" where
  "me_sizeCanvasEffect m =
     (if imgLoaded m then
        (case me_imageRef m of
           None \<Rightarrow> m
         | Some img \<Rightarrow>
             (case me_canvasRef m of
                None \<Rightarrow> m
              | Some cvs \<Rightarrow>
                  m\<lparr>me_canvasRef :=
                      Some (assign_height (naturalHeight img) (assign_width (naturalWidth img) cvs))\<rparr>))
      else m)"

text \<open>
  The \<open>load\<close> event of the image: the element presents the image of its \<open>src\<close>, and the
  \<open>onLoad\<close> handler runs \<open>setImgLoaded(true)\<close>.
\<close>

definition me_onLoad :: "mask_editor \<Rightarrow> mask_editor" where
  "me_onLoad m =
     (let m1 = m\<lparr>me_imageRef := map_option load_completes (me_imageRef m), imgLoaded := True\<rparr>
      in if imgLoaded m \<noteq> imgLoaded m1 then me_sizeCanvasEffect m1 else m1)"

definition me_startDrawing :: "mouse_event \<Rightarrow> mask_editor \<Rightarrow> mask_editor" where
  "me_startDrawing e m =
     (let m1 = m\<lparr>me_isDrawing := True\<rparr>;
          (x, y) = getCoordinates (me_canvasRef m) (me_imageRef m) (me_clientRect m) e
      in case (if me_context_ok m then me_canvasRef m else None) of
           None \<Rightarrow> m1
         | Some cvs \<Rightarrow>
             let cvs1 = moveTo x y (beginPath cvs);
                 cvs2 = cvs1\<lparr>ctx := (ctx cvs1)\<lparr>strokeStyle := ''rgba(0, 255, 0, 0.8)''\<rparr>\<rparr>;
                 cvs3 = assign_lineWidth
                          (js_mul (Num (me_brushSize m))
                             (js_div (of_nat (width (bitmap cvs))) 800)) cvs2;
                 cvs4 = cvs3\<lparr>ctx := (ctx cvs3)\<lparr>lineCap := ''round'', lineJoin := ''round''\<rparr>\<rparr>
             in m1\<lparr>me_canvasRef := Some cvs4\<rparr>)"

definition me_draw :: "renderer \<Rightarrow> mouse_event \<Rightarrow> mask_editor \<Rightarrow> mask_editor" where
  "me_draw rnd e m =
     (if \<not> me_isDrawing m then m
      else
        let (x, y) = getCoordinates (me_canvasRef m) (me_imageRef m) (me_clientRect m) e
        in case (if me_context_ok m then me_canvasRef m else None) of
             None \<Rightarrow> m
           | Some cvs \<Rightarrow> m\<lparr>me_canvasRef := Some (stroke rnd (lineTo x y cvs))\<rparr>)"

definition me_stopDrawing :: "mask_editor \<Rightarrow> mask_editor" where
  "me_stopDrawing m = m\<lparr>me_isDrawing := False\<rparr>"

text \<open>The parent unmounts the editor: \<open>setShowMaskEditor(false)\<close>.\<close>

definition me_unmount :: "mask_editor \<Rightarrow> mask_editor" where
  "me_unmount m = m\<lparr>me_canvasRef := None, me_imageRef := None\<rparr>"

text \<open>\<open>handleSave\<close>; the parent's \<open>onSave\<close> stores the image and closes the editor.\<close>

definition me_handleSave :: "mask_editor \<Rightarrow> mask_editor" where
  "me_handleSave m =
     (case me_imageRef m of
        None \<Rightarrow> m
      | Some img \<Rightarrow>
          (case me_canvasRef m of
             None \<Rightarrow> m
           | Some cvs \<Rightarrow>
               let tempCanvas = set_height (naturalHeight img)
                                  (set_width (naturalWidth img) createCanvas)
               in if me_context_ok m then
                    (case drawImage_canvas (bitmap cvs) (drawImage_element img tempCanvas) of
                       None \<Rightarrow> m\<lparr>me_uncaught := me_uncaught m @ [InvalidStateError]\<rparr>
                     | Some temp2 \<Rightarrow> me_unmount (m\<lparr>saved := saved m @ [toDataURL temp2]\<rparr>))
                  else m))"

datatype mask_editor_event =
    ImgLoad
  | MeSetBrushSize rat
  | MeMouseDown mouse_event
  | MeMouseMove mouse_event
  | MeMouseUp
  | MeMouseLeave
  | MeSave
  | MeCancel
  | MeLayout dom_rect

text \<open>An unmounted editor takes no events.\<close>

definition mask_editor_step :: "renderer \<Rightarrow> mask_editor_event \<Rightarrow> mask_editor \<Rightarrow> mask_editor" where
  "mask_editor_step rnd ev m =
     (if me_canvasRef m = None then m
      else
        (case ev of
           ImgLoad \<Rightarrow> me_onLoad m
         | MeSetBrushSize n \<Rightarrow> m\<lparr>me_brushSize := n\<rparr>
         | MeMouseDown e \<Rightarrow> me_startDrawing e m
         | MeMouseMove e \<Rightarrow> me_draw rnd e m
         | MeMouseUp \<Rightarrow> me_stopDrawing m
         | MeMouseLeave \<Rightarrow> me_stopDrawing m
         | MeSave \<Rightarrow> me_handleSave m
         | MeCancel \<Rightarrow> me_unmount m
         | MeLayout r \<Rightarrow> m\<lparr>me_clientRect := r\<rparr>))"

fun mask_editor_run :: "renderer \<Rightarrow> mask_editor_event list \<Rightarrow> mask_editor \<Rightarrow> mask_editor" where
  "mask_editor_run rnd [] m = m"
| "mask_editor_run rnd (ev # evs) m = mask_editor_run rnd evs (mask_editor_step rnd ev m)"

section \<open>Auxiliary definitions for the statements\<close>

text \<open>The content of the piece cut for the cell in row \<open>r\<close> and column \<open>c\<close>.\<close>

definition tile_of :: "raster \<Rightarrow> nat \<Rightarrow> nat \<Rightarrow> nat \<Rightarrow> nat \<Rightarrow> raster" where
  "tile_of img pw ph r c =
     \<lparr>width = pw, height = ph,
      px = (\<lambda>x y. if x < pw \<and> y < ph \<and> c * pw + x < width img \<and> r * ph + y < height img
                    then px img (c * pw + x) (r * ph + y) else transparent)\<rparr>"

text \<open>A test image with a different pixel at every position.\<close>

definition test_image :: "nat \<Rightarrow> nat \<Rightarrow> raster" where
  "test_image w h =
     \<lparr>width = w, height = h,
      px = (\<lambda>x y. \<lparr>red = of_nat x / of_nat w, green = of_nat y / of_nat h, blue = 0, alpha = 1\<rparr>)\<rparr>"

text \<open>A canvas sized to \<open>w\<close> by \<open>h\<close>, and a place of the canvas on screen.\<close>

definition sized_canvas :: "nat \<Rightarrow> nat \<Rightarrow> canvas_element" where
  "sized_canvas w h = assign_height h (assign_width w new_canvas)"

definition screen_rect :: dom_rect where
  "screen_rect = \<lparr>rect_left = 10, rect_top = 20, rect_width = 500, rect_height = 250\<rparr>"

text \<open>An image element that presents the image of its \<open>src\<close>.\<close>

definition loaded_img :: "raster \<Rightarrow> img_element" where
  "loaded_img u = \<lparr>src = u, shown = Some u\<rparr>"

text \<open>
  What holds of the gallery between events: the canvas and the image are mounted exactly
  while a preview is open.
\<close>

definition session_inv :: "gallery \<Rightarrow> bool" where
  "session_inv g =
     ((canvasRef g = None) = (previewImage g = None)
      \<and> (imageRef g = None) = (previewImage g = None))"

text \<open>
  A renderer for the examples: it paints the end point of a line and the outline of a
  rectangle with whole-number corners, in the highlight colour.
\<close>

fun cmd_hits :: "path_cmd \<Rightarrow> nat \<Rightarrow> nat \<Rightarrow> bool" where
  "cmd_hits (MoveTo a b) x y = False"
| "cmd_hits (LineTo a b) x y = (of_nat x = a \<and> of_nat y = b)"
| "cmd_hits (RectPath a b c d) x y =
     ((of_nat x = a \<or> of_nat x = a + c) \<and> b \<le> of_nat y \<and> of_nat y \<le> b + d
      \<or> (of_nat y = b \<or> of_nat y = b + d) \<and> a \<le> of_nat x \<and> of_nat x \<le> a + c)"

definition test_renderer :: renderer where
  "test_renderer c x y =
     (if list_ex (\<lambda>cmd. cmd_hits cmd x y) (path c)
      then \<lparr>red = 0, green = 4 / 5, blue = 0, alpha = 4 / 5\<rparr> else transparent)"

text \<open>An image of the gallery and a second place of the canvas on screen.\<close>

definition image_A :: generated_image where
  "image_A = \<lparr>image_id = ''a'', url = test_image 8 6, fullGridUrl = None, prompt = ''one'',
     aspectRatio = ''4:3'', timestamp = 1\<rparr>"

definition small_rect :: dom_rect where
  "small_rect = \<lparr>rect_left = 0, rect_top = 0, rect_width = 4, rect_height = 3\<rparr>"


text \<open>A gallery in painting mode with a given base image and a given overlay bitmap.\<close>

definition composing_state :: "raster \<Rightarrow> raster \<Rightarrow> gallery" where
  "composing_state base overlay =
     (gallery_init True True screen_rect)
       \<lparr>previewImage := Some (image_A\<lparr>url := base\<rparr>), isPainting := True,
        canvasRef := Some \<lparr>bitmap = overlay, ctx = default_context\<rparr>,
        imageRef := Some (loaded_img base)\<rparr>"

text \<open>A second gallery image, of the same size as the first.\<close>

definition image_B :: generated_image where
  "image_B = \<lparr>image_id = ''b'', url = test_image 8 6, fullGridUrl = None, prompt = ''two'',
     aspectRatio = ''4:3'', timestamp = 2\<rparr>"

text \<open>
  The reference drawing of the specification for the rectangle tool, in the specification's
  words: restore the pre-stroke snapshot once, then draw only the final rectangle, from the
  anchor to the point \<open>p\<close>.
\<close>

definition spec_rect_direct ::
    "renderer \<Rightarrow> raster \<Rightarrow> jsnum \<times> jsnum \<Rightarrow> jsnum \<times> jsnum \<Rightarrow> canvas_element \<Rightarrow> canvas_element" where
  "spec_rect_direct rnd snapshot anchor p cvs =
     stroke rnd
       (rect (fst anchor) (snd anchor) (js_sub (fst p) (fst anchor)) (js_sub (snd p) (snd anchor))
          (beginPath (putImageData snapshot cvs)))"

text \<open>A gallery in painting mode with the rectangle tool, an 8 by 6 overlay shown at 4 by 3.\<close>

definition rect_state :: gallery where
  "rect_state =
     (composing_state (test_image 8 6) (blank 8 6))\<lparr>activeTool := Rect, clientRect := small_rect\<rparr>"

text \<open>
  A stroke of the rectangle tool is going on: the snapshot has been taken and has the size of
  the canvas.
\<close>

definition rect_mode :: "gallery \<Rightarrow> bool" where
  "rect_mode s =
     (previewImage s \<noteq> None \<and> isDrawing s \<and> isPainting s \<and> context_ok s \<and> activeTool s = Rect
      \<and> (case canvasRef s of
            None \<Rightarrow> False
          | Some c \<Rightarrow>
              (case snapshotRef s of
                 None \<Rightarrow> False
               | Some snap \<Rightarrow>
                   width snap = width (bitmap c) \<and> height snap = height (bitmap c))))"

text \<open>
  The canvas on screen 15 pixels wide and 250 pixels high, for a bitmap of 1000 by 500.
\<close>

definition narrow_rect :: dom_rect where
  "narrow_rect = \<lparr>rect_left = 0, rect_top = 0, rect_width = 15, rect_height = 250\<rparr>"

text \<open>
  An offset \<open>a\<close>, a scale \<open>s\<close> and their product lie in the range of the normal doubles, the
  product with a factor 2 to spare: no rounding of the three operations underflows or
  overflows.
\<close>

definition normal_range :: "rat \<Rightarrow> rat \<Rightarrow> bool" where
  "normal_range a s =
     (2 powi (- 1022) \<le> \<bar>a\<bar> \<and> \<bar>a\<bar> < 2 ^ 1023
      \<and> 2 powi (- 1022) \<le> \<bar>s\<bar> \<and> \<bar>s\<bar> < 2 ^ 1023
      \<and> 2 powi (- 1021) \<le> \<bar>a * s\<bar> \<and> \<bar>a * s\<bar> < 2 ^ 1022)"


section \<open>Properties of the grid partitioner\<close>

lemma source_over_transparent_dst: "source_over p transparent = p"
  by (simp add: source_over_def transparent_def)

lemma piece_eq:
  "width canvas = pw \<Longrightarrow> height canvas = ph \<Longrightarrow>
   toDataURL (drawImage_sub img (c * pw) (r * ph) pw ph 0 0 (clearRect 0 0 pw ph canvas))
     = tile_of img pw ph r c"
  by (auto simp: toDataURL_def drawImage_sub_def clearRect_def tile_of_def
        source_over_transparent_dst fun_eq_iff)

lemma piece_dims:
  "width canvas = pw \<Longrightarrow> height canvas = ph \<Longrightarrow>
   width (drawImage_sub img sx sy sw sh 0 0 (clearRect 0 0 pw ph canvas)) = pw \<and>
   height (drawImage_sub img sx sy sw sh 0 0 (clearRect 0 0 pw ph canvas)) = ph"
  by (simp add: drawImage_sub_def clearRect_def)

lemma slice_cols_eq:
  "width canvas = pw \<Longrightarrow> height canvas = ph \<Longrightarrow>
   snd (slice_cols img pw ph cols r c (canvas, pieces)) = pieces @ map (tile_of img pw ph r) [c..<cols]
   \<and> width (fst (slice_cols img pw ph cols r c (canvas, pieces))) = pw
   \<and> height (fst (slice_cols img pw ph cols r c (canvas, pieces))) = ph"
proof (induction img pw ph cols r c "(canvas, pieces)" arbitrary: canvas pieces rule: slice_cols.induct)
  case (1 img pw ph cols r c canvas pieces)
  show ?case
  proof (cases "c < cols")
    case False
    with 1(2,3) show ?thesis by simp
  next
    case True
    let ?c2 = "drawImage_sub img (c * pw) (r * ph) pw ph 0 0 (clearRect 0 0 pw ph canvas)"
    have d: "width ?c2 = pw" "height ?c2 = ph" using piece_dims[OF 1(2,3)] by auto
    have step: "slice_cols img pw ph cols r c (canvas, pieces)
        = slice_cols img pw ph cols r (Suc c) (?c2, pieces @ [toDataURL ?c2])"
      using True by (simp add: cell_source_def Let_def)
    have ih: "snd (slice_cols img pw ph cols r (Suc c) (?c2, pieces @ [toDataURL ?c2]))
          = (pieces @ [toDataURL ?c2]) @ map (tile_of img pw ph r) [Suc c..<cols]
        \<and> width (fst (slice_cols img pw ph cols r (Suc c) (?c2, pieces @ [toDataURL ?c2]))) = pw
        \<and> height (fst (slice_cols img pw ph cols r (Suc c) (?c2, pieces @ [toDataURL ?c2]))) = ph"
      using "1.hyps" True d by (auto simp: cell_source_def)
    show ?thesis
      unfolding step using ih True piece_eq[OF 1(2,3)] by (simp add: upt_conv_Cons)
  qed
qed

lemma slice_rows_eq:
  "width canvas = pw \<Longrightarrow> height canvas = ph \<Longrightarrow>
   snd (slice_rows img pw ph rows cols r (canvas, pieces))
     = pieces @ concat (map (\<lambda>r. map (tile_of img pw ph r) [0..<cols]) [r..<rows])"
proof (induction img pw ph rows cols r "(canvas, pieces)" arbitrary: canvas pieces rule: slice_rows.induct)
  case (1 img pw ph rows cols r canvas pieces)
  show ?case
  proof (cases "r < rows")
    case False
    then show ?thesis by simp
  next
    case True
    obtain canvas' pieces' where st: "slice_cols img pw ph cols r 0 (canvas, pieces) = (canvas', pieces')"
      by (cases "slice_cols img pw ph cols r 0 (canvas, pieces)")
    from slice_cols_eq[OF 1(2,3), of img cols r 0 pieces] st
    have p: "pieces' = pieces @ map (tile_of img pw ph r) [0..<cols]"
      and d: "width canvas' = pw" "height canvas' = ph" by auto
    have "snd (slice_rows img pw ph rows cols r (canvas, pieces))
        = snd (slice_rows img pw ph rows cols (Suc r) (canvas', pieces'))"
      using True st by simp
    also have "\<dots> = pieces' @ concat (map (\<lambda>r. map (tile_of img pw ph r) [0..<cols]) [Suc r..<rows])"
      using "1.hyps"[OF True st d] .
    finally show ?thesis using True p by (simp add: upt_conv_Cons)
  qed
qed

lemma concat_grid_row_major:
  "concat (map (\<lambda>r. map (f r) [0..<C]) [0..<R]) = map (\<lambda>i. f (i div C) (i mod C)) [0..<R * C]"
proof (induction R)
  case 0
  show ?case by simp
next
  case (Suc R)
  have "[R * C..<C + R * C] = map (\<lambda>i. i + R * C) [0..<C]"
    by (simp only: map_add_upt)
  then have "map (\<lambda>i. f (i div C) (i mod C)) [R * C..<C + R * C]
      = map (\<lambda>i. f ((i + R * C) div C) ((i + R * C) mod C)) [0..<C]"
    by (simp only: map_map o_def)
  also have "\<dots> = map (f R) [0..<C]"
    by (rule map_cong) simp_all
  finally have row: "map (\<lambda>i. f (i div C) (i mod C)) [R * C..<C + R * C] = map (f R) [0..<C]" .
  have "[0..<R * C + C] = [0..<R * C] @ [R * C..<R * C + C]"
    by (rule upt_add_eq_append) simp
  then have split: "[0..<Suc R * C] = [0..<R * C] @ [R * C..<C + R * C]"
    by (simp only: mult_Suc add.commute)
  have "concat (map (\<lambda>r. map (f r) [0..<C]) [0..<Suc R])
      = concat (map (\<lambda>r. map (f r) [0..<C]) [0..<R]) @ map (f R) [0..<C]"
    by simp
  also have "\<dots> = map (\<lambda>i. f (i div C) (i mod C)) [0..<R * C] @ map (f R) [0..<C]"
    by (simp only: Suc)
  also have "\<dots> = map (\<lambda>i. f (i div C) (i mod C)) [0..<Suc R * C]"
    by (simp only: split map_append row)
  finally show ?case .
qed

lemma sliceImageGrid_eq:
  "sliceImageGrid (Some img) True rows cols
     = Inr (map (\<lambda>i. tile_of img (width img div cols) (height img div rows) (i div cols) (i mod cols))
              [0..<rows * cols])"
proof -
  let ?pw = "width img div cols" and ?ph = "height img div rows"
  let ?cv = "set_height ?ph (set_width ?pw createCanvas)"
  have "width ?cv = ?pw" "height ?cv = ?ph"
    by (simp_all add: set_height_def set_width_def blank_def)
  from slice_rows_eq[OF this, of img rows cols 0 "[]"]
  show ?thesis
    by (simp add: sliceImageGrid_def Let_def concat_grid_row_major)
qed

lemma strips_disjoint:
  fixes a b n x :: nat
  assumes "a * n \<le> x" "x < a * n + n" "b * n \<le> x" "x < b * n + n"
  shows "a = b"
proof (rule ccontr)
  assume "a \<noteq> b"
  then consider "Suc a \<le> b" | "Suc b \<le> a" by linarith
  then show False
  proof cases
    case 1
    then have "Suc a * n \<le> b * n" by (rule mult_le_mono1)
    then have "a * n + n \<le> b * n" by (simp only: mult_Suc add.commute)
    with assms show False by linarith
  next
    case 2
    then have "Suc b * n \<le> a * n" by (rule mult_le_mono1)
    then have "b * n + n \<le> a * n" by (simp only: mult_Suc add.commute)
    with assms show False by linarith
  qed
qed

lemma cells_disjoint:
  assumes "(r, c) \<noteq> (r', c')"
  shows "\<not> (covers (cell_source pw ph r c) x y \<and> covers (cell_source pw ph r' c') x y)"
proof
  assume a: "covers (cell_source pw ph r c) x y \<and> covers (cell_source pw ph r' c') x y"
  then have x: "c * pw \<le> x" "x < c * pw + pw" "c' * pw \<le> x" "x < c' * pw + pw"
    and y: "r * ph \<le> y" "y < r * ph + ph" "r' * ph \<le> y" "y < r' * ph + ph"
    by (simp_all add: covers_def cell_source_def)
  have "c = c'" using x by (rule strips_disjoint)
  moreover have "r = r'" using y by (rule strips_disjoint)
  ultimately show False using assms by simp
qed

lemma strip_inside:
  fixes w cols c x :: nat
  assumes "c < cols" "x < w div cols"
  shows "c * (w div cols) + x < cols * (w div cols) \<and> cols * (w div cols) \<le> w"
proof -
  have "Suc c \<le> cols" using assms(1) by simp
  then have "Suc c * (w div cols) \<le> cols * (w div cols)" by (rule mult_le_mono1)
  then have "c * (w div cols) + (w div cols) \<le> cols * (w div cols)"
    by (simp only: mult_Suc add.commute)
  with assms(2) have "c * (w div cols) + x < cols * (w div cols)" by linarith
  moreover have "cols * (w div cols) \<le> w" by simp
  ultimately show ?thesis by simp
qed

lemma row_major_index:
  fixes r c rows cols :: nat
  assumes "r < rows" "c < cols"
  shows "r * cols + c < rows * cols \<and> (r * cols + c) div cols = r \<and> (r * cols + c) mod cols = c"
proof -
  have "Suc r \<le> rows" using assms(1) by simp
  then have "Suc r * cols \<le> rows * cols" by (rule mult_le_mono1)
  then have "r * cols + cols \<le> rows * cols" by (simp only: mult_Suc add.commute)
  with assms(2) have "r * cols + c < rows * cols" by linarith
  then show ?thesis using assms(2) by simp
qed

lemma tile_of_pixels:
  assumes "r < rows" "c < cols" "x < width img div cols" "y < height img div rows"
  shows "px (tile_of img (width img div cols) (height img div rows) r c) x y
       = px img (c * (width img div cols) + x) (r * (height img div rows) + y)"
proof -
  have "c * (width img div cols) + x < width img"
    using strip_inside[OF assms(2,3)] by linarith
  moreover have "r * (height img div rows) + y < height img"
    using strip_inside[OF assms(1,4)] by linarith
  ultimately show ?thesis using assms(3,4) by (simp add: tile_of_def)
qed

text \<open>
  Claim C1. For a decoded composite raster of width \<open>W\<close> and height \<open>H\<close> and a grid of
  \<open>rows \<ge> 1\<close> rows and \<open>cols \<ge> 1\<close> columns, \<open>sliceImageGrid\<close> resolves with exactly
  \<open>rows * cols\<close> tiles in row-major order. The tile of cell \<open>(r, c)\<close> stands at index
  \<open>r * cols + c\<close>, has size \<open>W div cols\<close> by \<open>H div rows\<close> and its pixel \<open>(x, y)\<close> is the source
  pixel at \<open>(c * (W div cols) + x, r * (H div rows) + y)\<close>: a crop, not resampled. The source
  rectangles of different cells share no pixel, every tile pixel comes from the first
  \<open>cols * (W div cols)\<close> columns and \<open>rows * (H div rows)\<close> rows, and the discarded remainder is
  less than \<open>cols\<close> columns and less than \<open>rows\<close> rows.
\<close>

theorem sliceImageGrid_tiles:
  assumes "1 \<le> rows" and "1 \<le> cols"
  shows "\<exists>tiles. sliceImageGrid (Some img) True rows cols = Inr tiles
    \<and> length tiles = rows * cols
    \<and> cols * (width img div cols) \<le> width img \<and> width img - cols * (width img div cols) < cols
    \<and> rows * (height img div rows) \<le> height img \<and> height img - rows * (height img div rows) < rows
    \<and> (\<forall>r c. r < rows \<and> c < cols \<longrightarrow>
          width (tiles ! (r * cols + c)) = width img div cols
        \<and> height (tiles ! (r * cols + c)) = height img div rows
        \<and> (\<forall>x y. x < width img div cols \<and> y < height img div rows \<longrightarrow>
              px (tiles ! (r * cols + c)) x y
                = px img (c * (width img div cols) + x) (r * (height img div rows) + y)
            \<and> covers (cell_source (width img div cols) (height img div rows) r c)
                 (c * (width img div cols) + x) (r * (height img div rows) + y)
            \<and> c * (width img div cols) + x < cols * (width img div cols)
            \<and> r * (height img div rows) + y < rows * (height img div rows))
        \<and> (\<forall>r' c' x y. r' < rows \<and> c' < cols \<and> (r', c') \<noteq> (r, c) \<longrightarrow>
              \<not> (covers (cell_source (width img div cols) (height img div rows) r c) x y
                 \<and> covers (cell_source (width img div cols) (height img div rows) r' c') x y)))"
proof -
  let ?pw = "width img div cols" and ?ph = "height img div rows"
  let ?tiles = "map (\<lambda>i. tile_of img ?pw ?ph (i div cols) (i mod cols)) [0..<rows * cols]"
  have res: "sliceImageGrid (Some img) True rows cols = Inr ?tiles"
    by (rule sliceImageGrid_eq)
  have len: "length ?tiles = rows * cols" by simp
  have nth: "?tiles ! (r * cols + c) = tile_of img ?pw ?ph r c" if "r < rows" "c < cols" for r c
    using row_major_index[OF that] by simp
  have border: "cols * ?pw \<le> width img" "rows * ?ph \<le> height img" by simp_all
  have rest_w: "width img - cols * ?pw < cols"
    using assms(2) by (simp add: minus_mult_div_eq_mod)
  have rest_h: "height img - rows * ?ph < rows"
    using assms(1) by (simp add: minus_mult_div_eq_mod)
  have cell: "width (?tiles ! (r * cols + c)) = ?pw \<and> height (?tiles ! (r * cols + c)) = ?ph
      \<and> (\<forall>x y. x < ?pw \<and> y < ?ph \<longrightarrow>
            px (?tiles ! (r * cols + c)) x y = px img (c * ?pw + x) (r * ?ph + y)
          \<and> covers (cell_source ?pw ?ph r c) (c * ?pw + x) (r * ?ph + y)
          \<and> c * ?pw + x < cols * ?pw \<and> r * ?ph + y < rows * ?ph)
      \<and> (\<forall>r' c' x y. r' < rows \<and> c' < cols \<and> (r', c') \<noteq> (r, c) \<longrightarrow>
            \<not> (covers (cell_source ?pw ?ph r c) x y \<and> covers (cell_source ?pw ?ph r' c') x y))"
    if rc: "r < rows" "c < cols" for r c
  proof (intro conjI allI impI)
    show "width (?tiles ! (r * cols + c)) = ?pw" "height (?tiles ! (r * cols + c)) = ?ph"
      by (simp_all only: nth[OF rc]) (simp_all add: tile_of_def)
  next
    fix x y assume xy: "x < ?pw \<and> y < ?ph"
    show "px (?tiles ! (r * cols + c)) x y = px img (c * ?pw + x) (r * ?ph + y)"
      unfolding nth[OF rc] using rc xy by (intro tile_of_pixels) simp_all
    show "covers (cell_source ?pw ?ph r c) (c * ?pw + x) (r * ?ph + y)"
      using xy by (simp add: covers_def cell_source_def)
    show "c * ?pw + x < cols * ?pw"
      using strip_inside[of c cols x "width img"] rc xy by simp
    show "r * ?ph + y < rows * ?ph"
      using strip_inside[of r rows y "height img"] rc xy by simp
  next
    fix r' c' x y
    assume a: "r' < rows \<and> c' < cols \<and> (r', c') \<noteq> (r, c)"
    from a have "(r, c) \<noteq> (r', c')" by auto
    then show "\<not> (covers (cell_source ?pw ?ph r c) x y \<and> covers (cell_source ?pw ?ph r' c') x y)"
      by (rule cells_disjoint)
  qed
  show ?thesis
    using res len border rest_w rest_h cell by (intro exI[of _ ?tiles]) blast
qed


text \<open>The claim at a 900 by 600 image cut into 2 rows and 3 columns: the last tile.\<close>

theorem sliceImageGrid_tiles_witness:
  "(1::nat) \<le> 2 \<and> (1::nat) \<le> 3
   \<and> (\<exists>tiles. sliceImageGrid (Some (test_image 900 600)) True 2 3 = Inr tiles
        \<and> length tiles = 6
        \<and> width (tiles ! 5) = 300 \<and> height (tiles ! 5) = 300
        \<and> px (tiles ! 5) 7 9 = px (test_image 900 600) 607 309)"
proof -
  have r: "(1::nat) \<le> 2" and c: "(1::nat) \<le> 3" by simp_all
  from sliceImageGrid_tiles[OF r c, of "test_image 900 600"]
  obtain tiles where t: "sliceImageGrid (Some (test_image 900 600)) True 2 3 = Inr tiles"
    "length tiles = 2 * 3"
    and cell: "\<And>r c. r < 2 \<and> c < 3 \<Longrightarrow>
        width (tiles ! (r * 3 + c)) = width (test_image 900 600) div 3
      \<and> height (tiles ! (r * 3 + c)) = height (test_image 900 600) div 2
      \<and> (\<forall>x y. x < width (test_image 900 600) div 3 \<and> y < height (test_image 900 600) div 2 \<longrightarrow>
            px (tiles ! (r * 3 + c)) x y
              = px (test_image 900 600) (c * (width (test_image 900 600) div 3) + x)
                  (r * (height (test_image 900 600) div 2) + y))"
    by blast
  have w: "width (test_image 900 600) = 900" "height (test_image 900 600) = 600"
    by (simp_all add: test_image_def)
  from cell[of 1 2] have
    "width (tiles ! 5) = 300 \<and> height (tiles ! 5) = 300
     \<and> (\<forall>x y. x < 300 \<and> y < 300 \<longrightarrow>
          px (tiles ! 5) x y = px (test_image 900 600) (2 * 300 + x) (1 * 300 + y))"
    by (simp add: w)
  then have "width (tiles ! 5) = 300" "height (tiles ! 5) = 300"
    "px (tiles ! 5) 7 9 = px (test_image 900 600) 607 309"
    by simp_all
  with t show ?thesis by auto
qed


section \<open>Properties of the caller's truncation\<close>

lemma generateAndAddImage_urls:
  "generateAndAddImage (Some full) True True uuid genPrompt rows cols count ar idBase labelPrefix
     = Inr newImages \<Longrightarrow>
   sliceImageGrid (Some full) True rows cols = Inr tiles \<Longrightarrow>
   map url newImages = take count tiles"
  by (auto simp: generateAndAddImage_def generateMultiViewGrid_def slice0_def Let_def
        enumerate_eq_zip map_zip_map2 o_def split_def)

text \<open>
  Claim C2. When \<open>count \<le> rows * cols\<close>, \<open>generateAndAddImage\<close> keeps exactly the first \<open>count\<close>
  of the \<open>rows * cols\<close> row-major tiles of the partitioner: the list of new images has length
  \<open>count\<close> and its \<open>i\<close>-th image is the tile of the cell in row \<open>i div cols\<close> and column
  \<open>i mod cols\<close>. The list is cut by position alone (\<open>take\<close>), whatever the tiles contain.
\<close>

theorem generateAndAddImage_first_panels:
  assumes "1 \<le> rows" and "1 \<le> cols" and "count \<le> rows * cols"
  shows "\<exists>newImages tiles.
      generateAndAddImage (Some full) True True uuid genPrompt rows cols count ar idBase labelPrefix
        = Inr newImages
    \<and> sliceImageGrid (Some full) True rows cols = Inr tiles
    \<and> length tiles = rows * cols
    \<and> length newImages = count
    \<and> map url newImages = take count tiles
    \<and> map url newImages
        = map (\<lambda>i. tile_of full (width full div cols) (height full div rows) (i div cols) (i mod cols))
            [0..<count]
    \<and> (\<forall>i. i < count \<longrightarrow>
          url (newImages ! i) = tiles ! i
        \<and> width (url (newImages ! i)) = width full div cols
        \<and> height (url (newImages ! i)) = height full div rows
        \<and> (\<forall>x y. x < width full div cols \<and> y < height full div rows \<longrightarrow>
              px (url (newImages ! i)) x y
                = px full ((i mod cols) * (width full div cols) + x)
                    ((i div cols) * (height full div rows) + y)))"
proof -
  let ?pw = "width full div cols" and ?ph = "height full div rows"
  let ?tile = "\<lambda>i. tile_of full ?pw ?ph (i div cols) (i mod cols)"
  let ?tiles = "map ?tile [0..<rows * cols]"
  have res: "sliceImageGrid (Some full) True rows cols = Inr ?tiles"
    by (rule sliceImageGrid_eq)
  obtain newImages where new:
    "generateAndAddImage (Some full) True True uuid genPrompt rows cols count ar idBase labelPrefix
       = Inr newImages"
    by (simp add: generateAndAddImage_def generateMultiViewGrid_def res Let_def)
  have urls: "map url newImages = take count ?tiles"
    using new res by (rule generateAndAddImage_urls)
  have tk: "take count ?tiles = map ?tile [0..<count]"
    using assms(3) by (simp add: take_map min_def)
  have len: "length newImages = count"
    using arg_cong[OF urls, of length] assms(3) by simp
  have each: "url (newImages ! i) = ?tiles ! i
      \<and> width (url (newImages ! i)) = ?pw \<and> height (url (newImages ! i)) = ?ph
      \<and> (\<forall>x y. x < ?pw \<and> y < ?ph \<longrightarrow>
            px (url (newImages ! i)) x y = px full ((i mod cols) * ?pw + x) ((i div cols) * ?ph + y))"
    if i: "i < count" for i
  proof -
    have irc: "i < rows * cols" using i assms(3) by simp
    have "url (newImages ! i) = map url newImages ! i" using i len by simp
    also have "\<dots> = ?tile i" using i by (simp only: urls tk) simp
    finally have u: "url (newImages ! i) = ?tile i" .
    have c: "i mod cols < cols" using assms(2) by simp
    have r: "i div cols < rows" using irc by (simp add: less_mult_imp_div_less)
    have nth_t: "?tiles ! i = ?tile i" using irc by simp
    have "url (newImages ! i) = ?tiles ! i" by (simp only: u nth_t)
    moreover have "width (url (newImages ! i)) = ?pw" "height (url (newImages ! i)) = ?ph"
      by (simp_all only: u) (simp_all add: tile_of_def)
    moreover have "px (url (newImages ! i)) x y = px full ((i mod cols) * ?pw + x) ((i div cols) * ?ph + y)"
      if "x < ?pw \<and> y < ?ph" for x y
      unfolding u using that by (intro tile_of_pixels[OF r c]) simp_all
    ultimately show ?thesis by (intro conjI allI impI)
  qed
  have lt: "length ?tiles = rows * cols" by simp
  have urls': "map url newImages = map ?tile [0..<count]" by (simp only: urls tk)
  show ?thesis
    apply (rule exI[of _ newImages])
    apply (rule exI[of _ ?tiles])
    apply (intro conjI allI impI)
             apply (rule new)
            apply (rule res)
           apply (rule lt)
          apply (rule len)
         apply (rule urls)
        apply (rule urls')
       apply (erule each[THEN conjunct1])
      apply (erule each[THEN conjunct2, THEN conjunct1])
     apply (erule each[THEN conjunct2, THEN conjunct2, THEN conjunct1])
    apply (erule each[THEN conjunct2, THEN conjunct2, THEN conjunct2, rule_format])
    apply assumption
    done
qed


text \<open>
  The scenario of the specification: a 900 by 600 raster, 2 rows, 3 columns and 5 requested
  panels give the five 300 by 300 tiles of the cells (0,0), (0,1), (0,2), (1,0), (1,1).
\<close>

theorem generateAndAddImage_first_panels_witness:
  "(1::nat) \<le> 2 \<and> (1::nat) \<le> 3 \<and> (5::nat) \<le> 2 * 3
   \<and> (\<exists>newImages.
        generateAndAddImage (Some (test_image 900 600)) True True (\<lambda>i. ''id'') ''a cat'' 2 3 5
          ''16:9'' 0 ''STORYBOARD'' = Inr newImages
      \<and> length newImages = 5
      \<and> map url newImages
          = [tile_of (test_image 900 600) 300 300 0 0, tile_of (test_image 900 600) 300 300 0 1,
             tile_of (test_image 900 600) 300 300 0 2, tile_of (test_image 900 600) 300 300 1 0,
             tile_of (test_image 900 600) 300 300 1 1])"
proof -
  have h: "(1::nat) \<le> 2" "(1::nat) \<le> 3" "(5::nat) \<le> 2 * 3" by simp_all
  have w: "width (test_image 900 600) = 900" "height (test_image 900 600) = 600"
    by (simp_all add: test_image_def)
  have idx: "[0..<5] = [0, 1, 2, 3, 4]" by (simp add: upt_rec)
  from generateAndAddImage_first_panels[OF h, of "test_image 900 600" "\<lambda>i. ''id''" "''a cat''"
      "''16:9''" 0 "''STORYBOARD''"]
  obtain newImages where
    "generateAndAddImage (Some (test_image 900 600)) True True (\<lambda>i. ''id'') ''a cat'' 2 3 5
       ''16:9'' 0 ''STORYBOARD'' = Inr newImages"
    "length newImages = 5"
    "map url newImages
       = map (\<lambda>i. tile_of (test_image 900 600) (width (test_image 900 600) div 3)
                  (height (test_image 900 600) div 2) (i div 3) (i mod 3)) [0..<5]"
    by blast
  then show ?thesis by (simp add: w idx)
qed

section \<open>Properties of the double arithmetic\<close>

lemma round_half_even_nearest:
  assumes "\<bar>s - of_int m\<bar> < 1 / 2"
  shows "round_half_even s = m"
proof -
  have f: "of_int \<lfloor>s\<rfloor> \<le> s" "s < of_int \<lfloor>s\<rfloor> + 1" by linarith+
  from assms have "s - 1 / 2 < of_int m" "of_int m < s + 1 / 2" by linarith+
  consider "m = \<lfloor>s\<rfloor>" | "m = \<lfloor>s\<rfloor> + 1"
  proof -
    have "of_int m < of_int \<lfloor>s\<rfloor> + (3 / 2 :: rat)" using f \<open>of_int m < s + 1 / 2\<close> by linarith
    then have "of_int m < (of_int (\<lfloor>s\<rfloor> + 2) :: rat)" by simp
    then have 1: "m < \<lfloor>s\<rfloor> + 2" by (simp only: of_int_less_iff)
    have "(of_int \<lfloor>s\<rfloor> :: rat) - 1 / 2 < of_int m" using f \<open>s - 1 / 2 < of_int m\<close> by linarith
    then have "(of_int (\<lfloor>s\<rfloor> - 1) :: rat) < of_int m" by simp
    then have 2: "\<lfloor>s\<rfloor> - 1 < m" by (simp only: of_int_less_iff)
    from 1 2 have "m = \<lfloor>s\<rfloor> \<or> m = \<lfloor>s\<rfloor> + 1" by linarith
    then show ?thesis using that by blast
  qed
  then show ?thesis
  proof cases
    case 1
    then have "s - of_int \<lfloor>s\<rfloor> < 1 / 2" using assms by (simp; linarith)
    then show ?thesis using 1 by (simp add: round_half_even_def Let_def)
  next
    case 2
    then have "1 / 2 < s - of_int \<lfloor>s\<rfloor>" using assms by (simp; linarith)
    then show ?thesis using 2 by (simp add: round_half_even_def Let_def)
  qed
qed

lemma round_half_even_error: "\<bar>of_int (round_half_even s) - s\<bar> \<le> 1 / 2"
proof -
  have f: "of_int \<lfloor>s\<rfloor> \<le> s" "s < of_int \<lfloor>s\<rfloor> + 1" by linarith+
  show ?thesis
    using f by (auto simp: round_half_even_def Let_def) 
qed

lemma binade_from_bounds:
  "0 < a \<Longrightarrow> 1 / 2 ^ n \<le> a \<Longrightarrow> a < 2 ^ Suc n \<Longrightarrow>
   2 powi (binade_from n a e - e) \<le> a \<and> a < 2 powi (binade_from n a e - e + 1)"
proof (induction n arbitrary: a e)
  case 0
  then show ?case by simp
next
  case (Suc n)
  show ?case
  proof (cases "2 \<le> a")
    case True
    have "1 / 2 ^ n \<le> (1::rat)" by simp
    then have p2: "1 / 2 ^ n \<le> a / 2" using True by linarith
    have p1: "0 < a / 2" using True by simp
    have p3: "a / 2 < 2 ^ Suc n" using Suc.prems(3) by simp
    note p = p1 p2 p3
    define k where "k = binade_from n (a / 2) (e + 1) - e"
    have k1: "binade_from n (a / 2) (e + 1) - (e + 1) = k - 1" by (simp add: k_def)
    from Suc.IH[OF p, of "e + 1"]
    have "2 powi (k - 1) \<le> a / 2" "a / 2 < 2 powi (k - 1 + 1)"
      by (simp_all only: k1)
    moreover have "(2::rat) powi (k - 1) * 2 = 2 powi k"
      by (rule power_int_minus_mult) simp
    moreover have "(2::rat) powi (k - 1 + 1) = 2 powi k" by simp
    ultimately have "2 powi k \<le> a" "a < 2 powi k * 2" by linarith+
    moreover have "(2::rat) powi (k + 1) = 2 powi k * 2" by (rule power_int_add_1) simp
    ultimately show ?thesis
      using True by (simp add: k_def)
  next
    case False
    show ?thesis
    proof (cases "a < 1")
      case True
      have p1: "0 < a * 2" using Suc.prems(1) by simp
      have p2: "1 / 2 ^ n \<le> a * 2" using Suc.prems(2) by (simp add: field_simps)
      have "(2::rat) \<le> 2 ^ Suc n" by simp
      then have p3: "a * 2 < 2 ^ Suc n" using True by linarith
      note p = p1 p2 p3
      define k where "k = binade_from n (a * 2) (e - 1) - e"
      have k1: "binade_from n (a * 2) (e - 1) - (e - 1) = k + 1" by (simp add: k_def)
      from Suc.IH[OF p, of "e - 1"]
      have "2 powi (k + 1) \<le> a * 2" "a * 2 < 2 powi (k + 1 + 1)"
        by (simp_all only: k1)
      moreover have "(2::rat) powi (k + 1) = 2 powi k * 2"
        by (rule power_int_add_1) simp
      moreover have "(2::rat) powi (k + 1 + 1) = 2 powi (k + 1) * 2"
        by (rule power_int_add_1) simp
      ultimately have "2 powi k \<le> a" "a < 2 powi (k + 1)" by linarith+
      then show ?thesis
        using True by (simp add: k_def)
    next
      case False
      with \<open>\<not> 2 \<le> a\<close> show ?thesis by simp
    qed
  qed
qed


lemma pow2_exponent_less:
  assumes "(2::rat) powi m < 2 powi n"
  shows "m < n"
proof (rule ccontr)
  assume "\<not> m < n"
  then have "n \<le> m" by simp
  then have "(2::rat) powi n \<le> 2 powi m" by (rule power_int_increasing) simp
  with assms show False by simp
qed

lemma binade_bounds:
  assumes "1 / 2 ^ 2200 \<le> \<bar>x\<bar>" and "\<bar>x\<bar> < 2 ^ 2201"
  shows "2 powi binade x \<le> \<bar>x\<bar> \<and> \<bar>x\<bar> < 2 powi (binade x + 1)"
proof -
  have "(0::rat) < 1 / 2 ^ 2200" by simp
  with assms(1) have pos: "0 < \<bar>x\<bar>" by linarith
  have "\<bar>x\<bar> < 2 ^ Suc 2200" using assms(2) by simp
  from binade_from_bounds[OF pos assms(1) this, of 0] show ?thesis
    by (simp add: binade_def)
qed

lemma binade_eq:
  assumes "2 powi e \<le> \<bar>x\<bar>" and "\<bar>x\<bar> < 2 powi (e + 1)" and "- 2200 \<le> e" and "e \<le> 2200"
  shows "binade x = e"
proof -
  have "(2::rat) powi (- 2200) \<le> 2 powi e" using assms(3) by (intro power_int_increasing) simp_all
  then have lo: "1 / 2 ^ 2200 \<le> \<bar>x\<bar>" using assms(1) by (simp add: power_int_minus field_simps)
  have "(2::rat) powi (e + 1) \<le> 2 powi 2201" using assms(4) by (intro power_int_increasing) simp_all
  then have hi: "\<bar>x\<bar> < 2 ^ 2201" using assms(2) by simp
  from binade_bounds[OF lo hi] have b: "2 powi binade x \<le> \<bar>x\<bar>" "\<bar>x\<bar> < 2 powi (binade x + 1)"
    by simp_all
  have "(2::rat) powi e < 2 powi (binade x + 1)" using assms(1) b(2) by linarith
  then have 1: "e < binade x + 1" by (rule pow2_exponent_less)
  have "(2::rat) powi binade x < 2 powi (e + 1)" using assms(2) b(1) by linarith
  then have 2: "binade x < e + 1" by (rule pow2_exponent_less)
  from 1 2 show ?thesis by simp
qed

lemma fl_eqI:
  assumes "0 < x" and "2 powi e \<le> x" and "x < 2 powi (e + 1)" and "- 1022 \<le> e" and "e \<le> 1023"
    and "\<bar>x / 2 powi (e - 52) - of_int m\<bar> < 1 / 2"
    and "(of_int m :: rat) * 2 powi (e - 52) < 2 ^ 1024"
  shows "fl x = Num (of_int m * 2 powi (e - 52))"
proof -
  have b: "binade x = e"
    using assms(1-5) by (intro binade_eq) simp_all
  have r: "round_half_even (x / 2 powi (e - 52)) = m"
    using assms(6) by (rule round_half_even_nearest)
  show ?thesis
    using assms(1,4,7) by (simp add: fl_def b r Let_def max_def)
qed

lemma binade_from_le: "binade_from n a e \<le> e + int n"
proof (induction n arbitrary: a e)
  case 0
  show ?case by simp
next
  case (Suc n)
  have "binade_from n (a / 2) (e + 1) \<le> e + 1 + int n" by (rule Suc)
  moreover have "binade_from n (a * 2) (e - 1) \<le> e - 1 + int n" by (rule Suc)
  ultimately show ?case by simp
qed

lemma fl_finite_error:
  assumes "2 powi (- 1022) \<le> \<bar>x\<bar>" and "fl x = Num y"
  shows "\<bar>y - x\<bar> \<le> \<bar>x\<bar> / 2 ^ 53"
proof -
  have "(0::rat) < 2 powi (- 1022)" by simp
  with assms(1) have nz: "x \<noteq> 0" by auto
  define e where "e = max (binade x) (- 1022)"
  define u :: rat where "u = 2 powi (e - 52)"
  define m where "m = round_half_even (\<bar>x\<bar> / u)"
  have upos: "0 < u" by (simp add: u_def)
  have "\<bar>of_int m - \<bar>x\<bar> / u\<bar> \<le> 1 / 2" unfolding m_def by (rule round_half_even_error)
  then have "\<bar>of_int m - \<bar>x\<bar> / u\<bar> * u \<le> 1 / 2 * u" using upos by (intro mult_right_mono) simp_all
  then have "\<bar>(of_int m - \<bar>x\<bar> / u) * u\<bar> \<le> u / 2" using upos by (simp add: abs_mult)
  then have near: "\<bar>of_int m * u - \<bar>x\<bar>\<bar> \<le> u / 2" using upos by (simp add: algebra_simps)
  have val: "fl x = (if 2 ^ 1024 \<le> of_int m * u then (if 0 < x then PosInf else NegInf)
                    else Num (if 0 < x then of_int m * u else - (of_int m * u)))"
    using nz by (simp add: fl_def Let_def e_def u_def m_def)
  from assms(2) val have fin: "of_int m * u < 2 ^ 1024"
    and y: "y = (if 0 < x then of_int m * u else - (of_int m * u))"
    by (auto split: if_splits)
  have dist: "\<bar>y - x\<bar> = \<bar>of_int m * u - \<bar>x\<bar>\<bar>"
  proof (cases "0 < x")
    case True
    then show ?thesis by (simp add: y)
  next
    case False
    then have "\<bar>x\<bar> = - x" by simp
    moreover have "y = - (of_int m * u)" using False by (simp add: y)
    moreover have "\<bar>- (of_int m * u) - x\<bar> = \<bar>of_int m * u - (- x)\<bar>"
      by (simp add: abs_minus_commute[symmetric] algebra_simps abs_if)
    ultimately show ?thesis by simp
  qed
  have small: "\<bar>x\<bar> < 2 ^ 2201"
  proof (rule ccontr)
    assume "\<not> \<bar>x\<bar> < 2 ^ 2201"
    then have big: "2 ^ 2201 \<le> \<bar>x\<bar>" by simp
    have "binade x \<le> 2200" using binade_from_le[of 2200 "\<bar>x\<bar>" 0] by (simp add: binade_def)
    then have "e - 52 \<le> 2148" by (simp add: e_def)
    then have "u \<le> 2 powi 2148" unfolding u_def by (intro power_int_increasing) simp_all
    then have "u \<le> 2 ^ 2148" by simp
    moreover have "(2::rat) ^ 2148 \<le> 2 ^ 2200" by (intro power_increasing) simp_all
    moreover have "(2::rat) ^ 2201 = 2 * 2 ^ 2200" by simp
    moreover have "(2::rat) ^ 1024 \<le> 2 ^ 2200" by (intro power_increasing) simp_all
    moreover have "(0::rat) < 2 ^ 2200" by simp
    ultimately have "2 ^ 1024 \<le> \<bar>x\<bar> - u / 2" using big upos by linarith
    with near have "2 ^ 1024 \<le> of_int m * u" by linarith
    with fin show False by simp
  qed
  have "(2::rat) powi (- 2200) \<le> 2 powi (- 1022)" by (intro power_int_increasing) simp_all
  with assms(1) have lo: "1 / 2 ^ 2200 \<le> \<bar>x\<bar>" by (simp add: power_int_minus field_simps)
  from binade_bounds[OF lo small] have b: "2 powi binade x \<le> \<bar>x\<bar>" "\<bar>x\<bar> < 2 powi (binade x + 1)"
    by simp_all
  have "(2::rat) powi (- 1022) < 2 powi (binade x + 1)" using assms(1) b(2) by linarith
  then have "- 1022 < binade x + 1" by (rule pow2_exponent_less)
  then have ee: "e = binade x" by (simp add: e_def)
  have "(2::rat) powi e = 2 powi (e - 52) * 2 powi 52"
    using power_int_add[of "2::rat" "e - 52" 52] by simp
  then have "u * 2 ^ 52 \<le> \<bar>x\<bar>" using b(1) by (simp add: u_def ee)
  then have "u / 2 \<le> \<bar>x\<bar> / 2 ^ 53" by (simp add: field_simps)
  with near dist show ?thesis by linarith
qed

lemma fl_exact:
  fixes m k :: int
  assumes x: "x = of_int m * 2 powi k" and m: "\<bar>m\<bar> < 2 ^ 53" and k: "- 1074 \<le> k" "k \<le> 971"
  shows "fl x = Num x"
proof (cases "m = 0")
  case True
  then show ?thesis by (simp add: x fl_def)
next
  case False
  then have m1: "1 \<le> \<bar>m\<bar>" by linarith
  have pk: "(0::rat) < 2 powi k" by simp
  have ax: "\<bar>x\<bar> = of_int \<bar>m\<bar> * 2 powi k" by (simp add: x abs_mult)
  have nz: "x \<noteq> 0" using False by (simp add: x)
  have "(1::rat) \<le> of_int \<bar>m\<bar>" using m1 by linarith
  then have "1 * 2 powi k \<le> of_int \<bar>m\<bar> * (2::rat) powi k" using pk by (intro mult_right_mono) simp_all
  then have lo: "2 powi k \<le> \<bar>x\<bar>" by (simp add: ax)
  have "(of_int \<bar>m\<bar> :: rat) < of_int (2 ^ 53)" using m by (simp only: of_int_less_iff)
  then have "(of_int \<bar>m\<bar> :: rat) < 2 ^ 53" by simp
  then have hi0: "of_int \<bar>m\<bar> * 2 powi k < 2 ^ 53 * (2::rat) powi k"
    using pk by (intro mult_strict_right_mono)
  have e53: "2 ^ 53 * (2::rat) powi k = 2 powi (53 + k)"
    using power_int_add[of "2::rat" 53 k] by simp
  have hi: "\<bar>x\<bar> < 2 powi (53 + k)"
    using hi0 unfolding ax e53 .
  have "(2::rat) powi (- 2200) \<le> 2 powi k" using k by (intro power_int_increasing) simp_all
  with lo have lo': "1 / 2 ^ 2200 \<le> \<bar>x\<bar>" by (simp add: power_int_minus field_simps)
  have "(2::rat) powi (53 + k) \<le> 2 powi 1024" using k by (intro power_int_increasing) simp_all
  with hi have fin: "\<bar>x\<bar> < 2 ^ 1024" by simp
  have "(2::rat) ^ 1024 \<le> 2 ^ 2201" by (intro power_increasing) simp_all
  with fin have hi': "\<bar>x\<bar> < 2 ^ 2201" by linarith
  from binade_bounds[OF lo' hi'] have b: "2 powi binade x \<le> \<bar>x\<bar>" by simp
  with hi have "(2::rat) powi binade x < 2 powi (53 + k)" by linarith
  then have "binade x < 53 + k" by (rule pow2_exponent_less)
  define e where "e = max (binade x) (- 1022)"
  define u :: rat where "u = 2 powi (e - 52)"
  define j where "j = nat (k - (e - 52))"
  have ek: "e - 52 \<le> k" using \<open>binade x < 53 + k\<close> k by (simp add: e_def)
  then have kj: "k = (e - 52) + int j" by (simp add: j_def)
  have upos: "0 < u" by (simp add: u_def)
  have "(2::rat) powi k = 2 powi (e - 52) * 2 powi (int j)"
    by (subst kj) (simp add: power_int_add)
  then have pku: "(2::rat) powi k = u * 2 ^ j" by (simp add: u_def)
  define M where "M = \<bar>m\<bar> * 2 ^ j"
  have q: "\<bar>x\<bar> / u = of_int M" using upos by (simp add: ax pku M_def)
  have r: "round_half_even (\<bar>x\<bar> / u) = M"
    unfolding q by (rule round_half_even_nearest) simp
  have y: "of_int M * u = \<bar>x\<bar>" using q upos by (simp add: field_simps)
  show ?thesis
  proof (cases "0 < x")
    case True
    then have a: "\<bar>x\<bar> = x" by simp
    show ?thesis
      using nz True fin r y by (simp add: fl_def Let_def a u_def e_def)
  next
    case neg: False
    then have a: "\<bar>x\<bar> = - x" using nz by simp
    show ?thesis
      using nz neg fin r y by (simp add: fl_def Let_def a u_def e_def)
  qed
qed

lemma fl_of_int: "\<bar>n\<bar> < 2 ^ 53 \<Longrightarrow> fl (of_int n) = Num (of_int n)"
  using fl_exact[of "of_int n" n 0] by simp

lemma fl_numeral: "(numeral w :: int) < 2 ^ 53 \<Longrightarrow> fl (numeral w) = Num (numeral w)"
  using fl_of_int[of "numeral w"] by simp

lemma fl_neg_numeral: "(numeral w :: int) < 2 ^ 53 \<Longrightarrow> fl (- numeral w) = Num (- numeral w)"
  using fl_of_int[of "- numeral w"] by simp

lemma fl_zero_one: "fl 0 = Num 0" "fl 1 = Num 1"
  using fl_of_int[of 0] fl_of_int[of 1] by simp_all

lemmas fl_whole = fl_numeral fl_neg_numeral fl_zero_one

lemma binade_from_upper:
  "a < 2 powi (k + 1) \<Longrightarrow> 0 \<le> k \<Longrightarrow> binade_from n a e \<le> e + k"
proof (induction n arbitrary: a e k)
  case 0
  then show ?case by simp
next
  case (Suc n)
  show ?case
  proof (cases "2 \<le> a")
    case True
    have "k \<noteq> 0" using True Suc.prems by auto
    then have k1: "0 \<le> k - 1" using Suc.prems(2) by simp
    have "(2::rat) powi (k + 1) = 2 powi (k - 1 + 1) * 2"
      using power_int_add[of "2::rat" "k - 1 + 1" 1] by simp
    then have "a / 2 < 2 powi (k - 1 + 1)" using Suc.prems(1) by (simp add: field_simps)
    from Suc.IH[OF this k1, of "e + 1"] True show ?thesis by simp
  next
    case False
    show ?thesis
    proof (cases "a < 1")
      case True
      then have "a * 2 < 2 powi (0 + 1)" by simp
      from Suc.IH[OF this, of "e - 1"] True False Suc.prems(2) show ?thesis by simp
    next
      case F2: False
      then show ?thesis using False Suc.prems(2) by simp
    qed
  qed
qed

lemma fl_finite:
  assumes "\<bar>x\<bar> < 2 ^ 1023"
  shows "\<exists>y. fl x = Num y"
proof (cases "x = 0")
  case True
  then show ?thesis by (simp add: fl_def)
next
  case False
  define e where "e = max (binade x) (- 1022)"
  define u :: rat where "u = 2 powi (e - 52)"
  define m where "m = round_half_even (\<bar>x\<bar> / u)"
  have upos: "0 < u" by (simp add: u_def)
  have "\<bar>x\<bar> < 2 powi (1022 + 1)" using assms by simp
  from binade_from_upper[OF this, of 2200 0] have "binade x \<le> 1022" by (simp add: binade_def)
  then have "e - 52 \<le> 970" by (simp add: e_def)
  then have "u \<le> 2 powi 970" unfolding u_def by (intro power_int_increasing) simp_all
  then have u970: "u \<le> 2 ^ 970" by simp
  have "\<bar>of_int m - \<bar>x\<bar> / u\<bar> \<le> 1 / 2" unfolding m_def by (rule round_half_even_error)
  then have "\<bar>of_int m - \<bar>x\<bar> / u\<bar> * u \<le> 1 / 2 * u" using upos by (intro mult_right_mono) simp_all
  then have "\<bar>(of_int m - \<bar>x\<bar> / u) * u\<bar> \<le> u / 2" using upos by (simp add: abs_mult)
  then have near: "\<bar>of_int m * u - \<bar>x\<bar>\<bar> \<le> u / 2" using upos by (simp add: algebra_simps)
  have "(2::rat) ^ 1024 = 2 * 2 ^ 1023" by simp
  moreover have "(2::rat) ^ 970 \<le> 2 ^ 1023" by (intro power_increasing) simp_all
  moreover have "(0::rat) < 2 ^ 1023" by simp
  ultimately have "of_int m * u < 2 ^ 1024" using near u970 assms by linarith
  then show ?thesis
    using False by (simp add: fl_def Let_def e_def u_def m_def)
qed

lemma fl_scaled_error:
  assumes a: "2 powi (- 1022) \<le> \<bar>a\<bar>" "\<bar>a\<bar> < 2 ^ 1023"
    and s: "2 powi (- 1022) \<le> \<bar>s\<bar>" "\<bar>s\<bar> < 2 ^ 1023"
    and p: "2 powi (- 1021) \<le> \<bar>a * s\<bar>" "\<bar>a * s\<bar> < 2 ^ 1022"
  shows "\<exists>a' s' x. fl a = Num a' \<and> fl s = Num s' \<and> fl (a' * s') = Num x
           \<and> \<bar>x - a * s\<bar> \<le> \<bar>a * s\<bar> / 2 ^ 51"
proof -
  from fl_finite[OF a(2)] obtain a' where a': "fl a = Num a'" by blast
  from fl_finite[OF s(2)] obtain s' where s': "fl s = Num s'" by blast
  define P where "P = \<bar>a * s\<bar>"
  define Q where "Q = P / 2 ^ 53"
  define R where "R = Q / 2 ^ 53"
  define T where "T = a' * s'"
  have P0: "0 \<le> P" by (simp add: P_def)
  have PA: "P = \<bar>a\<bar> * \<bar>s\<bar>" by (simp add: P_def abs_mult)
  have da: "\<bar>a' - a\<bar> \<le> \<bar>a\<bar> / 2 ^ 53" by (rule fl_finite_error[OF a(1) a'])
  have ds: "\<bar>s' - s\<bar> \<le> \<bar>s\<bar> / 2 ^ 53" by (rule fl_finite_error[OF s(1) s'])
  have t1: "\<bar>(a' - a) * (s' - s)\<bar> \<le> R"
  proof -
    have "\<bar>a' - a\<bar> * \<bar>s' - s\<bar> \<le> (\<bar>a\<bar> / 2 ^ 53) * (\<bar>s\<bar> / 2 ^ 53)"
      using da ds by (intro mult_mono) simp_all
    also have "\<dots> = R" by (simp add: R_def Q_def PA)
    finally show ?thesis by (simp add: abs_mult)
  qed
  have t2: "\<bar>a * (s' - s)\<bar> \<le> Q"
  proof -
    have "\<bar>a\<bar> * \<bar>s' - s\<bar> \<le> \<bar>a\<bar> * (\<bar>s\<bar> / 2 ^ 53)"
      using ds by (intro mult_left_mono) simp_all
    also have "\<dots> = Q" by (simp add: Q_def PA)
    finally show ?thesis by (simp add: abs_mult)
  qed
  have t3: "\<bar>(a' - a) * s\<bar> \<le> Q"
  proof -
    have "\<bar>a' - a\<bar> * \<bar>s\<bar> \<le> (\<bar>a\<bar> / 2 ^ 53) * \<bar>s\<bar>"
      using da by (intro mult_right_mono) simp_all
    also have "\<dots> = Q" by (simp add: Q_def PA)
    finally show ?thesis by (simp add: abs_mult)
  qed
  have split: "T - a * s = (a' - a) * (s' - s) + a * (s' - s) + (a' - a) * s"
    by (simp add: T_def algebra_simps)
  have D: "\<bar>T - a * s\<bar> \<le> R + 2 * Q"
    unfolding split using t1 t2 t3 by linarith
  have qP: "P = 9007199254740992 * Q" by (simp add: Q_def)
  have rQ: "Q = 9007199254740992 * R" by (simp add: R_def)
  have R0: "0 \<le> R" using P0 qP rQ by linarith
  have Tlo: "P / 2 \<le> \<bar>T\<bar>" using D qP rQ R0 unfolding P_def by linarith
  have Thi: "\<bar>T\<bar> \<le> 2 * P" using D qP rQ R0 unfolding P_def by linarith
  have "(2::rat) powi (- 1021) = 2 powi (- 1022) * 2"
    using power_int_add[of "2::rat" "- 1022" 1] by simp
  then have "2 powi (- 1022) \<le> P / 2" using p(1) by (simp add: P_def)
  with Tlo have lo: "2 powi (- 1022) \<le> \<bar>T\<bar>" by linarith
  have "(2::rat) ^ 1023 = 2 * 2 ^ 1022" by simp
  with Thi p(2) have hi: "\<bar>T\<bar> < 2 ^ 1023" unfolding P_def by linarith
  from fl_finite[OF hi] obtain x where x: "fl T = Num x" by blast
  have "\<bar>x - T\<bar> \<le> \<bar>T\<bar> / 2 ^ 53" by (rule fl_finite_error[OF lo x])
  then have ex: "9007199254740992 * \<bar>x - T\<bar> \<le> \<bar>T\<bar>" by (simp add: field_simps)
  have "P / 2 ^ 51 = 4 * Q" by (simp add: Q_def)
  moreover have "\<bar>x - a * s\<bar> \<le> 4 * Q"
  proof -
    define X where "X = \<bar>x - T\<bar>"
    define Y where "Y = \<bar>T - a * s\<bar>"
    have "\<bar>T\<bar> \<le> P + Y" unfolding P_def Y_def by linarith
    with ex have 1: "9007199254740992 * X \<le> P + Y" unfolding X_def by linarith
    have 2: "Y \<le> R + 2 * Q" using D by (simp add: Y_def)
    have 3: "\<bar>x - a * s\<bar> \<le> X + Y" unfolding X_def Y_def by linarith
    from 1 2 qP rQ R0 have "X + Y \<le> 4 * Q" by linarith
    with 3 show ?thesis by linarith
  qed
  ultimately have "\<bar>x - a * s\<bar> \<le> \<bar>a * s\<bar> / 2 ^ 51" by (simp add: P_def)
  with a' s' x show ?thesis unfolding T_def by blast
qed

section \<open>Properties of the coordinate mapper\<close>

lemma sized_canvas_dims:
  "width (bitmap (sized_canvas w h)) = w" "height (bitmap (sized_canvas w h)) = h"
  by (simp_all add: sized_canvas_def assign_height_def assign_width_def set_height_def
        set_width_def blank_def)

lemma scaled_coordinate:
  assumes "w \<noteq> 0" and "normal_range (c - l) (n / w)"
  shows "\<exists>x. js_mul (js_sub (Num c) (Num l)) (js_div n w) = Num x
           \<and> \<bar>x - (c - l) * n / w\<bar> \<le> \<bar>(c - l) * n / w\<bar> / 2 ^ 51"
proof -
  from assms(2) fl_scaled_error[of "c - l" "n / w"]
  obtain a' s' x where "fl (c - l) = Num a'" "fl (n / w) = Num s'" "fl (a' * s') = Num x"
    "\<bar>x - (c - l) * (n / w)\<bar> \<le> \<bar>(c - l) * (n / w)\<bar> / 2 ^ 51"
    unfolding normal_range_def by blast
  then show ?thesis using assms(1) by (simp add: js_div_def)
qed

lemma origin_coordinate:
  assumes "0 < w" and "n / w < 2 ^ 1023" and "0 \<le> n"
  shows "js_mul (js_sub (Num l) (Num l)) (js_div n w) = Num 0"
proof -
  have "\<bar>n / w\<bar> < 2 ^ 1023" using assms by simp
  from fl_finite[OF this] obtain s where "fl (n / w) = Num s" by blast
  then show ?thesis using assms(1) by (simp add: js_div_def fl_zero_one)
qed

text \<open>
  Claim C3 says that \<open>getCoordinates\<close> returns exactly \<open>(px * W / w, py * H / h)\<close> and maps the
  corner \<open>(w, h)\<close> to \<open>(W, H)\<close>. The code computes in doubles and rounds the scale \<open>W / w\<close>
  before it multiplies. A canvas bitmap of 1000 by 500 shown at 15 by 250 with its corner at
  the origin of the viewport: the pointer at the far corner \<open>(15, 250)\<close> maps to the abscissa
  \<open>1000 + 2 ^ (- 43)\<close>, the double next above 1000, not to 1000.
\<close>

theorem getCoordinates_exact_counterexample:
  "getCoordinates (Some (sized_canvas 1000 500)) (Some (loaded_img (test_image 1000 500)))
      narrow_rect \<lparr>clientX = 15, clientY = 250\<rparr> = (Num (1000 + 1 / 2 ^ 43), Num 500)
   \<and> getCoordinates (Some (sized_canvas 1000 500)) (Some (loaded_img (test_image 1000 500)))
      narrow_rect \<lparr>clientX = 15, clientY = 250\<rparr> \<noteq> (Num 1000, Num 500)"
proof -
  have g: "getCoordinates (Some (sized_canvas 1000 500)) (Some (loaded_img (test_image 1000 500)))
      narrow_rect \<lparr>clientX = 15, clientY = 250\<rparr>
      = (js_mul (js_sub (Num 15) (Num 0)) (js_div 1000 15),
         js_mul (js_sub (Num 250) (Num 0)) (js_div 500 250))"
    by (simp add: getCoordinates_def sized_canvas_dims narrow_rect_def Let_def
          del: js_sub.simps js_mul.simps)
  have s1: "js_sub (Num 15) (Num 0) = Num 15" by (simp add: fl_whole)
  have s2: "js_sub (Num 250) (Num 0) = Num 250" by (simp add: fl_whole)
  have d1: "js_div 1000 15 = Num (4691249611844267 / 70368744177664)"
    unfolding js_div_def using fl_eqI[of "1000 / 15" 6 4691249611844267] by simp
  have d2: "js_div 500 250 = Num 2" by (simp add: js_div_def fl_whole)
  have m1: "js_mul (Num 15) (Num (4691249611844267 / 70368744177664)) = Num (1000 + 1 / 2 ^ 43)"
    using fl_eqI[of "15 * (4691249611844267 / 70368744177664)" 9 8796093022208001] by simp
  have m2: "js_mul (Num 250) (Num 2) = Num 500" by (simp add: fl_whole)
  show ?thesis unfolding g s1 s2 d1 d2 m1 m2 by simp
qed

text \<open>
  Claim C3 as amended. With both refs present and a rendered size of positive width \<open>w\<close> and
  height \<open>h\<close>, \<open>getCoordinates\<close> returns \<open>((clientX - left) * (W / w), (clientY - top) * (H / h))\<close>
  evaluated in double arithmetic, each of the three operations rounded to the nearest
  double, where \<open>W\<close> by \<open>H\<close> is the size of the canvas bitmap. While the offset, the scale and
  their product are in the range of the normal doubles, the result is a finite number within
  the relative error \<open>2 ^ (- 51)\<close> of the exact \<open>px * W / w\<close>, for every pointer position, inside
  the surface or not: nothing is clamped. The corner \<open>(0, 0)\<close> maps to \<open>(0, 0)\<close> exactly while
  the scale is a finite double, the corner \<open>(w, h)\<close> to within that relative error of \<open>(W, H)\<close>,
  and the result depends only on the bitmap size, the rectangle and the event, not on
  anything drawn or stored.
\<close>

theorem getCoordinates_rounded:
  assumes "0 < rect_width r" and "0 < rect_height r"
  shows "getCoordinates (Some cvs) (Some img) r e
           = (js_mul (js_sub (Num (clientX e)) (Num (rect_left r)))
                (js_div (of_nat (width (bitmap cvs))) (rect_width r)),
              js_mul (js_sub (Num (clientY e)) (Num (rect_top r)))
                (js_div (of_nat (height (bitmap cvs))) (rect_height r)))
       \<and> (normal_range (clientX e - rect_left r) (of_nat (width (bitmap cvs)) / rect_width r) \<longrightarrow>
            (\<exists>x. fst (getCoordinates (Some cvs) (Some img) r e) = Num x
               \<and> \<bar>x - (clientX e - rect_left r) * of_nat (width (bitmap cvs)) / rect_width r\<bar>
                   \<le> \<bar>(clientX e - rect_left r) * of_nat (width (bitmap cvs)) / rect_width r\<bar>
                        / 2 ^ 51))
       \<and> (normal_range (clientY e - rect_top r) (of_nat (height (bitmap cvs)) / rect_height r) \<longrightarrow>
            (\<exists>y. snd (getCoordinates (Some cvs) (Some img) r e) = Num y
               \<and> \<bar>y - (clientY e - rect_top r) * of_nat (height (bitmap cvs)) / rect_height r\<bar>
                   \<le> \<bar>(clientY e - rect_top r) * of_nat (height (bitmap cvs)) / rect_height r\<bar>
                        / 2 ^ 51))
       \<and> (clientX e = rect_left r \<and> of_nat (width (bitmap cvs)) / rect_width r < 2 ^ 1023 \<longrightarrow>
            fst (getCoordinates (Some cvs) (Some img) r e) = Num 0)
       \<and> (clientY e = rect_top r \<and> of_nat (height (bitmap cvs)) / rect_height r < 2 ^ 1023 \<longrightarrow>
            snd (getCoordinates (Some cvs) (Some img) r e) = Num 0)
       \<and> (clientX e = rect_left r + rect_width r
            \<and> normal_range (rect_width r) (of_nat (width (bitmap cvs)) / rect_width r) \<longrightarrow>
            (\<exists>x. fst (getCoordinates (Some cvs) (Some img) r e) = Num x
               \<and> \<bar>x - of_nat (width (bitmap cvs))\<bar> \<le> of_nat (width (bitmap cvs)) / 2 ^ 51))
       \<and> (clientY e = rect_top r + rect_height r
            \<and> normal_range (rect_height r) (of_nat (height (bitmap cvs)) / rect_height r) \<longrightarrow>
            (\<exists>y. snd (getCoordinates (Some cvs) (Some img) r e) = Num y
               \<and> \<bar>y - of_nat (height (bitmap cvs))\<bar> \<le> of_nat (height (bitmap cvs)) / 2 ^ 51))
       \<and> (\<forall>cvs' img'. width (bitmap cvs') = width (bitmap cvs)
              \<and> height (bitmap cvs') = height (bitmap cvs) \<longrightarrow>
            getCoordinates (Some cvs') (Some img') r e = getCoordinates (Some cvs) (Some img) r e)"
proof -
  have eq: "getCoordinates (Some c) (Some i) r e
           = (js_mul (js_sub (Num (clientX e)) (Num (rect_left r)))
                (js_div (of_nat (width (bitmap c))) (rect_width r)),
              js_mul (js_sub (Num (clientY e)) (Num (rect_top r)))
                (js_div (of_nat (height (bitmap c))) (rect_height r)))" for c i
    by (simp add: getCoordinates_def Let_def del: js_sub.simps js_mul.simps)
  have w: "rect_width r \<noteq> 0" and h: "rect_height r \<noteq> 0" using assms by simp_all
  have x: "\<exists>x. fst (getCoordinates (Some cvs) (Some img) r e) = Num x
               \<and> \<bar>x - (clientX e - rect_left r) * of_nat (width (bitmap cvs)) / rect_width r\<bar>
                   \<le> \<bar>(clientX e - rect_left r) * of_nat (width (bitmap cvs)) / rect_width r\<bar>
                        / 2 ^ 51"
    if "normal_range (clientX e - rect_left r) (of_nat (width (bitmap cvs)) / rect_width r)"
    unfolding eq fst_conv by (rule scaled_coordinate[OF w that])
  have y: "\<exists>y. snd (getCoordinates (Some cvs) (Some img) r e) = Num y
               \<and> \<bar>y - (clientY e - rect_top r) * of_nat (height (bitmap cvs)) / rect_height r\<bar>
                   \<le> \<bar>(clientY e - rect_top r) * of_nat (height (bitmap cvs)) / rect_height r\<bar>
                        / 2 ^ 51"
    if "normal_range (clientY e - rect_top r) (of_nat (height (bitmap cvs)) / rect_height r)"
    unfolding eq snd_conv by (rule scaled_coordinate[OF h that])
  have ox: "fst (getCoordinates (Some cvs) (Some img) r e) = Num 0"
    if "clientX e = rect_left r \<and> of_nat (width (bitmap cvs)) / rect_width r < 2 ^ 1023"
    unfolding eq fst_conv using that origin_coordinate[OF assms(1), of "of_nat (width (bitmap cvs))"]
    by simp
  have oy: "snd (getCoordinates (Some cvs) (Some img) r e) = Num 0"
    if "clientY e = rect_top r \<and> of_nat (height (bitmap cvs)) / rect_height r < 2 ^ 1023"
    unfolding eq snd_conv using that origin_coordinate[OF assms(2), of "of_nat (height (bitmap cvs))"]
    by simp
  have cx: "\<exists>x. fst (getCoordinates (Some cvs) (Some img) r e) = Num x
               \<and> \<bar>x - of_nat (width (bitmap cvs))\<bar> \<le> of_nat (width (bitmap cvs)) / 2 ^ 51"
    if "clientX e = rect_left r + rect_width r
          \<and> normal_range (rect_width r) (of_nat (width (bitmap cvs)) / rect_width r)"
  proof -
    from that have d: "clientX e - rect_left r = rect_width r" by simp
    from that x[unfolded d] w show ?thesis by simp
  qed
  have cy: "\<exists>y. snd (getCoordinates (Some cvs) (Some img) r e) = Num y
               \<and> \<bar>y - of_nat (height (bitmap cvs))\<bar> \<le> of_nat (height (bitmap cvs)) / 2 ^ 51"
    if "clientY e = rect_top r + rect_height r
          \<and> normal_range (rect_height r) (of_nat (height (bitmap cvs)) / rect_height r)"
  proof -
    from that have d: "clientY e - rect_top r = rect_height r" by simp
    from that y[unfolded d] h show ?thesis by simp
  qed
  have st: "getCoordinates (Some cvs') (Some img') r e = getCoordinates (Some cvs) (Some img) r e"
    if "width (bitmap cvs') = width (bitmap cvs) \<and> height (bitmap cvs') = height (bitmap cvs)"
    for cvs' img'
    unfolding eq using that by simp
  show ?thesis
    apply (intro conjI allI impI)
           apply (rule eq)
          apply (erule x)
         apply (erule y)
        apply (erule ox)
       apply (erule oy)
      apply (erule cx)
     apply (erule cy)
    apply (erule st)
    done
qed

text \<open>
  The bitmap of 1000 by 500 shown at 15 by 250: the far corner maps to within the relative
  error \<open>2 ^ (- 51)\<close> of 1000, the near corner to 0, and a pointer left of the surface to a
  negative abscissa.
\<close>

theorem getCoordinates_rounded_witness:
  "0 < rect_width narrow_rect \<and> 0 < rect_height narrow_rect
   \<and> (\<exists>x. fst (getCoordinates (Some (sized_canvas 1000 500))
               (Some (loaded_img (test_image 1000 500))) narrow_rect
               \<lparr>clientX = 15, clientY = 250\<rparr>) = Num x
         \<and> \<bar>x - 1000\<bar> \<le> 1000 / 2 ^ 51)
   \<and> fst (getCoordinates (Some (sized_canvas 1000 500))
            (Some (loaded_img (test_image 1000 500))) narrow_rect
            \<lparr>clientX = 0, clientY = 0\<rparr>) = Num 0
   \<and> snd (getCoordinates (Some (sized_canvas 1000 500))
            (Some (loaded_img (test_image 1000 500))) narrow_rect
            \<lparr>clientX = 0, clientY = 0\<rparr>) = Num 0
   \<and> (\<exists>x. fst (getCoordinates (Some (sized_canvas 1000 500))
               (Some (loaded_img (test_image 1000 500))) narrow_rect
               \<lparr>clientX = - 3, clientY = 0\<rparr>) = Num x
         \<and> \<bar>x + 200\<bar> \<le> 200 / 2 ^ 51)
   \<and> (\<exists>y. snd (getCoordinates (Some (sized_canvas 1000 500))
               (Some (loaded_img (test_image 1000 500))) narrow_rect
               \<lparr>clientX = 15, clientY = 250\<rparr>) = Num y
         \<and> \<bar>y - 500\<bar> \<le> 500 / 2 ^ 51)"
proof -
  have h: "0 < rect_width narrow_rect" "0 < rect_height narrow_rect"
    by (simp_all add: narrow_rect_def)
  have n1: "normal_range 15 (1000 / 15)" by (simp add: normal_range_def)
  have n2: "normal_range (- 3) (1000 / 15)" by (simp add: normal_range_def)
  note G = getCoordinates_rounded[OF h, of "sized_canvas 1000 500"
      "loaded_img (test_image 1000 500)"]
  have a: "\<exists>x. fst (getCoordinates (Some (sized_canvas 1000 500))
               (Some (loaded_img (test_image 1000 500))) narrow_rect
               \<lparr>clientX = 15, clientY = 250\<rparr>) = Num x
         \<and> \<bar>x - 1000\<bar> \<le> 1000 / 2 ^ 51"
    using G[of "\<lparr>clientX = 15, clientY = 250\<rparr>", THEN conjunct2, THEN conjunct1] n1
    by (simp add: sized_canvas_dims narrow_rect_def)
  have b: "fst (getCoordinates (Some (sized_canvas 1000 500))
            (Some (loaded_img (test_image 1000 500))) narrow_rect
            \<lparr>clientX = 0, clientY = 0\<rparr>) = Num 0"
    using G[of "\<lparr>clientX = 0, clientY = 0\<rparr>", THEN conjunct2, THEN conjunct2, THEN conjunct2,
        THEN conjunct1]
    by (simp add: sized_canvas_dims narrow_rect_def)
  have c: "snd (getCoordinates (Some (sized_canvas 1000 500))
            (Some (loaded_img (test_image 1000 500))) narrow_rect
            \<lparr>clientX = 0, clientY = 0\<rparr>) = Num 0"
    using G[of "\<lparr>clientX = 0, clientY = 0\<rparr>", THEN conjunct2, THEN conjunct2, THEN conjunct2,
        THEN conjunct2, THEN conjunct1]
    by (simp add: sized_canvas_dims narrow_rect_def)
  have d: "\<exists>x. fst (getCoordinates (Some (sized_canvas 1000 500))
               (Some (loaded_img (test_image 1000 500))) narrow_rect
               \<lparr>clientX = - 3, clientY = 0\<rparr>) = Num x
         \<and> \<bar>x + 200\<bar> \<le> 200 / 2 ^ 51"
    using G[of "\<lparr>clientX = - 3, clientY = 0\<rparr>", THEN conjunct2, THEN conjunct1] n2
    by (simp add: sized_canvas_dims narrow_rect_def)
  have n3: "normal_range 250 (500 / 250)" by (simp add: normal_range_def)
  have e: "\<exists>y. snd (getCoordinates (Some (sized_canvas 1000 500))
               (Some (loaded_img (test_image 1000 500))) narrow_rect
               \<lparr>clientX = 15, clientY = 250\<rparr>) = Num y
         \<and> \<bar>y - 500\<bar> \<le> 500 / 2 ^ 51"
    using G[of "\<lparr>clientX = 15, clientY = 250\<rparr>", THEN conjunct2, THEN conjunct2, THEN conjunct2,
        THEN conjunct2, THEN conjunct2, THEN conjunct2, THEN conjunct1] n3
    by (simp add: sized_canvas_dims narrow_rect_def)
  from h a b c d e show ?thesis by (intro conjI)
qed

text \<open>
  Claim C10. When the canvas ref or the image ref is missing, \<open>getCoordinates\<close> returns
  \<open>(0, 0)\<close>; it returns a point for all inputs. In the gallery, a pointer-down with the
  brush while only the image ref is missing therefore anchors the stroke at the origin of
  the raster.
\<close>

theorem getCoordinates_missing_ref:
  "(canvasRef_current = None \<or> imageRef_current = None \<longrightarrow>
      getCoordinates canvasRef_current imageRef_current r e = (Num 0, Num 0))
   \<and> (\<exists>p. getCoordinates canvasRef_current imageRef_current r e = p)
   \<and> (isPainting g \<and> context_ok g \<and> activeTool g = Brush \<and> imageRef g = None
        \<and> canvasRef g = Some cvs \<and> 0 < width (bitmap cvs) \<and> 0 < height (bitmap cvs) \<longrightarrow>
      startPosRef (startDrawing e g) = (Num 0, Num 0)
      \<and> (\<exists>cvs'. canvasRef (startDrawing e g) = Some cvs' \<and> path (ctx cvs') = [MoveTo 0 0]))"
proof (intro conjI impI)
  assume "canvasRef_current = None \<or> imageRef_current = None"
  then show "getCoordinates canvasRef_current imageRef_current r e = (Num 0, Num 0)"
    by (auto simp: getCoordinates_def split: option.splits)
next
  show "\<exists>p. getCoordinates canvasRef_current imageRef_current r e = p" by simp
next
  assume a: "isPainting g \<and> context_ok g \<and> activeTool g = Brush \<and> imageRef g = None
        \<and> canvasRef g = Some cvs \<and> 0 < width (bitmap cvs) \<and> 0 < height (bitmap cvs)"
  show "startPosRef (startDrawing e g) = (Num 0, Num 0)"
    using a by (simp add: startDrawing_def getCoordinates_def getImageData_def Let_def)
  show "\<exists>cvs'. canvasRef (startDrawing e g) = Some cvs' \<and> path (ctx cvs') = [MoveTo 0 0]"
    using a by (simp add: startDrawing_def getCoordinates_def getImageData_def Let_def moveTo_def
        beginPath_def assign_lineWidth_def split: jsnum.splits)
qed

theorem getCoordinates_missing_ref_witness:
  "getCoordinates None (Some (loaded_img (test_image 4 4))) screen_rect
       \<lparr>clientX = 100, clientY = 50\<rparr>
     = (Num 0, Num 0)
   \<and> getCoordinates (Some (sized_canvas 4 4)) None screen_rect \<lparr>clientX = 100, clientY = 50\<rparr>
     = (Num 0, Num 0)
   \<and> startPosRef (startDrawing \<lparr>clientX = 100, clientY = 50\<rparr>
        ((gallery_init True True screen_rect)\<lparr>isPainting := True,
           canvasRef := Some (sized_canvas 4 4)\<rparr>)) = (Num 0, Num 0)"
  using getCoordinates_missing_ref[where canvasRef_current = None
      and imageRef_current = "Some (loaded_img (test_image 4 4))" and r = screen_rect
      and e = "\<lparr>clientX = 100, clientY = 50\<rparr>"
      and g = "(gallery_init True True screen_rect)\<lparr>isPainting := True,
                 canvasRef := Some (sized_canvas 4 4)\<rparr>"
      and cvs = "sized_canvas 4 4"]
    getCoordinates_missing_ref[where canvasRef_current = "Some (sized_canvas 4 4)"
      and imageRef_current = None and r = screen_rect
      and e = "\<lparr>clientX = 100, clientY = 50\<rparr>"]
  by (simp add: gallery_init_def sized_canvas_dims)

section \<open>Properties of the paint sessions: the resolution of the overlay\<close>

lemma dims_assign [simp]:
  "width (bitmap (assign_width w c)) = w" "height (bitmap (assign_width w c)) = height (bitmap c)"
  "width (bitmap (assign_height h c)) = width (bitmap c)" "height (bitmap (assign_height h c)) = h"
  by (simp_all add: assign_width_def assign_height_def set_width_def set_height_def blank_def)

lemma dims_ctx_ops [simp]:
  "bitmap (beginPath c) = bitmap c"
  "bitmap (moveTo x y c) = bitmap c"
  "bitmap (lineTo x y c) = bitmap c"
  "bitmap (rect x y w h c) = bitmap c"
  "bitmap (assign_lineWidth v c) = bitmap c"
  by (simp_all add: beginPath_def moveTo_def lineTo_def rect_def assign_lineWidth_def
        split: jsnum.splits)

lemma dims_paint_ops [simp]:
  "width (bitmap (stroke rnd c)) = width (bitmap c)"
  "height (bitmap (stroke rnd c)) = height (bitmap c)"
  "width (bitmap (putImageData d c)) = width (bitmap c)"
  "height (bitmap (putImageData d c)) = height (bitmap c)"
  "width (bitmap (ctx_clearRect x0 y0 w h c)) = width (bitmap c)"
  "height (bitmap (ctx_clearRect x0 y0 w h c)) = height (bitmap c)"
  by (simp_all add: stroke_def putImageData_def ctx_clearRect_def clearRect_def)

lemma mount_inv: "session_inv (mount available g)"
  by (simp add: mount_def session_inv_def split: option.splits)

lemma sizeCanvasEffect_inv: "session_inv g \<Longrightarrow> session_inv (sizeCanvasEffect g)"
  by (auto simp: sizeCanvasEffect_def session_inv_def Let_def split: option.splits)

lemma rerender_inv: "session_inv (rerender available old new)"
  by (simp add: rerender_def Let_def mount_inv sizeCanvasEffect_inv)

lemma startDrawing_inv: "session_inv g \<Longrightarrow> session_inv (startDrawing e g)"
  by (auto simp: startDrawing_def session_inv_def Let_def split: option.splits prod.splits)

lemma draw_inv: "session_inv g \<Longrightarrow> session_inv (draw rnd e g)"
  by (auto simp: draw_def session_inv_def Let_def split: option.splits prod.splits)

lemma session_inv_uncaught: "session_inv (g\<lparr>uncaught := u\<rparr>) = session_inv g"
  by (simp add: session_inv_def)

lemma handleSaveComposite_inv:
  "session_inv g \<Longrightarrow> session_inv (handleSaveComposite uuid now g)"
  by (simp add: handleSaveComposite_def Let_def session_inv_uncaught rerender_inv
        split: option.splits)

lemma gallery_step_inv: "session_inv g \<Longrightarrow> session_inv (gallery_step rnd ev g)"
proof (cases ev)
  case (ImageClick img available)
  then show ?thesis by (simp add: gallery_step_def handleImageClick_def rerender_inv)
next
  case ImageDecoded
  assume "session_inv g"
  then show ?thesis
    by (auto simp: gallery_step_def ImageDecoded imageDecoded_def session_inv_def
          split: option.splits)
next
  case (Layout r)
  assume "session_inv g"
  then show ?thesis by (simp add: gallery_step_def Layout session_inv_def)
next
  case ClosePreview
  assume "session_inv g"
  then show ?thesis by (simp add: gallery_step_def ClosePreview closePreview_def rerender_inv)
next
  case TogglePainting
  assume "session_inv g"
  then show ?thesis by (simp add: gallery_step_def TogglePainting togglePainting_def rerender_inv)
next
  case (SetActiveTool t)
  assume "session_inv g"
  then show ?thesis by (simp add: gallery_step_def SetActiveTool session_inv_def)
next
  case (SetBrushSize n)
  assume "session_inv g"
  then show ?thesis by (simp add: gallery_step_def SetBrushSize session_inv_def)
next
  case (MouseDown e)
  assume "session_inv g"
  then show ?thesis by (simp add: gallery_step_def MouseDown startDrawing_inv)
next
  case (MouseMove e)
  assume "session_inv g"
  then show ?thesis by (simp add: gallery_step_def MouseMove draw_inv)
next
  case MouseUp
  assume "session_inv g"
  then show ?thesis by (simp add: gallery_step_def MouseUp stopDrawing_def session_inv_def)
next
  case MouseLeave
  assume "session_inv g"
  then show ?thesis by (simp add: gallery_step_def MouseLeave stopDrawing_def session_inv_def)
next
  case (SaveComposite uuid now)
  assume "session_inv g"
  then show ?thesis by (simp add: gallery_step_def SaveComposite handleSaveComposite_inv)
qed

lemma gallery_run_inv: "session_inv g \<Longrightarrow> session_inv (gallery_run rnd evs g)"
  by (induction evs arbitrary: g) (simp_all add: gallery_step_inv)

lemma gallery_init_inv: "session_inv (gallery_init a ok r)"
  by (simp add: gallery_init_def session_inv_def)

lemma gallery_run_append:
  "gallery_run rnd (xs @ ys) s = gallery_run rnd ys (gallery_run rnd xs s)"
  by (induction xs arbitrary: s) simp_all

lemma fl_dyadic_examples:
  "fl (3 / 8) = Num (3 / 8)" "fl (15 / 2) = Num (15 / 2)" "fl (5 / 2) = Num (5 / 2)"
  using fl_exact[of "3 / 8" 3 "- 3"] fl_exact[of "15 / 2" 15 "- 1"] fl_exact[of "5 / 2" 5 "- 1"]
  by simp_all

text \<open>The definitions that evaluate a run of events.\<close>

lemmas gallery_eval =
  gallery_step_def handleImageClick_def closePreview_def togglePainting_def imageDecoded_def
  startDrawing_def draw_def stopDrawing_def handleSaveComposite_def rerender_def mount_def
  sizeCanvasEffect_def gallery_init_def getCoordinates_def js_div_def getImageData_def Let_def
  new_canvas_def createCanvas_def blank_def create_img_def assign_src_def load_completes_def
  naturalWidth_def naturalHeight_def fl_whole

lemmas editor_eval =
  mask_editor_step_def me_onLoad_def me_sizeCanvasEffect_def me_startDrawing_def me_draw_def
  me_stopDrawing_def me_handleSave_def me_unmount_def mask_editor_init_def getCoordinates_def
  js_div_def Let_def new_canvas_def createCanvas_def blank_def create_img_def load_completes_def
  naturalWidth_def naturalHeight_def fl_whole

text \<open>
  Claim C8 says that in every reachable state with an allocated overlay the overlay has the
  natural width and height of the base image. The gallery sizes the overlay in an effect
  that runs when the preview or the painting mode changes, and reads \<open>naturalWidth\<close> and
  \<open>naturalHeight\<close> there; its image has no \<open>onLoad\<close> handler. When the lightbox opens on an
  image that the browser has not yet decoded, the effect sees 0 by 0, and nothing sizes the
  overlay again when the image arrives: after opening the 8 by 6 image, entering the painting
  mode and the end of the load, the image reports 8 by 6 and the overlay is 0 by 0. The next
  pointer-down on it raises an \<open>IndexSizeError\<close>. In the mask editor, whose effect waits for
  the \<open>load\<close> event, the canvas takes strokes before that event: the image is at hand and
  reports 8 by 6, and the overlay drawn on is still the default 300 by 150.
\<close>

theorem overlay_resolution_failing_input:
  "canvasRef (gallery_run test_renderer [ImageClick image_A False, TogglePainting, ImageDecoded]
      (gallery_init True True screen_rect)) = Some \<lparr>bitmap = blank 0 0, ctx = default_context\<rparr>
   \<and> map_option naturalWidth (imageRef (gallery_run test_renderer
        [ImageClick image_A False, TogglePainting, ImageDecoded]
        (gallery_init True True screen_rect))) = Some 8
   \<and> map_option naturalHeight (imageRef (gallery_run test_renderer
        [ImageClick image_A False, TogglePainting, ImageDecoded]
        (gallery_init True True screen_rect))) = Some 6
   \<and> isPainting (gallery_run test_renderer [ImageClick image_A False, TogglePainting, ImageDecoded]
        (gallery_init True True screen_rect))
   \<and> uncaught (gallery_run test_renderer
        [ImageClick image_A False, TogglePainting, ImageDecoded,
         MouseDown \<lparr>clientX = 12, clientY = 22\<rparr>]
        (gallery_init True True screen_rect)) = [IndexSizeError]
   \<and> map_option (\<lambda>c. (width (bitmap c), height (bitmap c), path (ctx c)))
        (me_canvasRef (mask_editor_run test_renderer
          [MeMouseDown \<lparr>clientX = 1, clientY = 1\<rparr>, MeMouseMove \<lparr>clientX = 2, clientY = 2\<rparr>]
          (mask_editor_init (test_image 8 6) True True small_rect)))
       = Some (300, 150, [MoveTo 75 50, LineTo 150 100])
   \<and> map_option naturalWidth (me_imageRef (mask_editor_run test_renderer
          [MeMouseDown \<lparr>clientX = 1, clientY = 1\<rparr>, MeMouseMove \<lparr>clientX = 2, clientY = 2\<rparr>]
          (mask_editor_init (test_image 8 6) True True small_rect))) = Some 8
   \<and> map_option naturalHeight (me_imageRef (mask_editor_run test_renderer
          [MeMouseDown \<lparr>clientX = 1, clientY = 1\<rparr>, MeMouseMove \<lparr>clientX = 2, clientY = 2\<rparr>]
          (mask_editor_init (test_image 8 6) True True small_rect))) = Some 6"
proof -
  let ?g = "gallery_run test_renderer [ImageClick image_A False, TogglePainting, ImageDecoded]
      (gallery_init True True screen_rect)"
  let ?m = "mask_editor_run test_renderer
          [MeMouseDown \<lparr>clientX = 1, clientY = 1\<rparr>, MeMouseMove \<lparr>clientX = 2, clientY = 2\<rparr>]
          (mask_editor_init (test_image 8 6) True True small_rect)"
  have 1: "canvasRef ?g = Some \<lparr>bitmap = blank 0 0, ctx = default_context\<rparr>"
    by (simp add: gallery_eval assign_width_def assign_height_def set_width_def set_height_def
          ctx_clearRect_def clearRect_def)
  have 2: "map_option naturalWidth (imageRef ?g) = Some 8"
    by (simp add: gallery_eval image_A_def test_image_def)
  have 3: "map_option naturalHeight (imageRef ?g) = Some 6"
    by (simp add: gallery_eval image_A_def test_image_def)
  have 4: "isPainting ?g" by (simp add: gallery_eval)
  have 5: "uncaught (gallery_run test_renderer
        [ImageClick image_A False, TogglePainting, ImageDecoded,
         MouseDown \<lparr>clientX = 12, clientY = 22\<rparr>]
        (gallery_init True True screen_rect)) = [IndexSizeError]"
    by (simp add: gallery_eval)
  have 6: "map_option (\<lambda>c. (width (bitmap c), height (bitmap c), path (ctx c))) (me_canvasRef ?m)
       = Some (300, 150, [MoveTo 75 50, LineTo 150 100])"
    by (simp add: editor_eval small_rect_def moveTo_def lineTo_def beginPath_def
          assign_lineWidth_def stroke_def fl_dyadic_examples)
  have 7: "map_option naturalWidth (me_imageRef ?m) = Some 8"
    by (simp add: editor_eval test_image_def)
  have 8: "map_option naturalHeight (me_imageRef ?m) = Some 6"
    by (simp add: editor_eval test_image_def)
  from 1 2 3 4 5 6 7 8 show ?thesis by (intro conjI)
qed

section \<open>Properties of the brush width\<close>


section \<open>Properties of the export\<close>

lemma handleSaveComposite_no_context:
  "\<not> context_ok g \<Longrightarrow> handleSaveComposite uuid now g = g"
  by (simp add: handleSaveComposite_def Let_def split: option.splits)

text \<open>
  Claim C6 says that an export requested while the base raster or the overlay raster is not
  available fails with a typed precondition error. The handlers do otherwise, through their
  guards: they return, and nothing tells the caller. Here the gallery has an image open in
  painting mode, no drawing context can be acquired, and the save button is pressed: the
  state is what it was before, with no exception, no added image, the preview still open.
\<close>

theorem export_precondition_error_counterexample:
  "gallery_step test_renderer (SaveComposite ''id'' 7)
      (gallery_run test_renderer [ImageClick image_A True, TogglePainting]
         (gallery_init True False screen_rect))
     = gallery_run test_renderer [ImageClick image_A True, TogglePainting]
         (gallery_init True False screen_rect)
   \<and> previewImage (gallery_run test_renderer [ImageClick image_A True, TogglePainting]
         (gallery_init True False screen_rect)) = Some image_A
   \<and> isPainting (gallery_run test_renderer [ImageClick image_A True, TogglePainting]
         (gallery_init True False screen_rect))
   \<and> uncaught (gallery_run test_renderer [ImageClick image_A True, TogglePainting]
         (gallery_init True False screen_rect)) = []
   \<and> added (gallery_run test_renderer [ImageClick image_A True, TogglePainting]
         (gallery_init True False screen_rect)) = []"
proof -
  let ?g = "gallery_run test_renderer [ImageClick image_A True, TogglePainting]
         (gallery_init True False screen_rect)"
  have p: "previewImage ?g = Some image_A" by (simp add: gallery_eval)
  have i: "isPainting ?g" by (simp add: gallery_eval)
  have o: "onAddImage ?g" by (simp add: gallery_eval)
  have c: "\<not> context_ok ?g" by (simp add: gallery_eval)
  have u: "uncaught ?g = []" by (simp add: gallery_eval)
  have a: "added ?g = []" by (simp add: gallery_eval)
  have "gallery_step test_renderer (SaveComposite ''id'' 7) ?g = handleSaveComposite ''id'' 7 ?g"
    using p i o by (simp only: gallery_step_def) simp
  also have "\<dots> = ?g" using c by (rule handleSaveComposite_no_context)
  finally show ?thesis using p i u a by simp
qed

text \<open>
  Claim C6 as amended. When a prerequisite of the export is missing (in the gallery: the
  preview image, the canvas ref, the image ref, the \<open>onAddImage\<close> callback or the drawing
  context; in the mask editor: the image ref, the canvas ref or the drawing context), the
  export handler returns and leaves the state exactly as it was: no image is produced and
  no error is raised.
\<close>

theorem export_without_prerequisites_returns_silently:
  "(previewImage g = None \<or> canvasRef g = None \<or> imageRef g = None \<or> \<not> onAddImage g
      \<or> \<not> context_ok g \<longrightarrow>
    handleSaveComposite uuid now g = g)
   \<and> (me_imageRef m = None \<or> me_canvasRef m = None \<or> \<not> me_context_ok m \<longrightarrow>
    me_handleSave m = m)"
  by (auto simp: handleSaveComposite_def me_handleSave_def Let_def split: option.splits)

theorem export_without_prerequisites_returns_silently_witness:
  "handleSaveComposite ''id'' 7 (gallery_init True True screen_rect) = gallery_init True True screen_rect
   \<and> me_handleSave (mask_editor_init (test_image 8 6) True False screen_rect)
       = mask_editor_init (test_image 8 6) True False screen_rect"
  using export_without_prerequisites_returns_silently[where g = "gallery_init True True screen_rect"
      and uuid = "''id''" and now = 7
      and m = "mask_editor_init (test_image 8 6) True False screen_rect"]
  by (simp add: gallery_init_def mask_editor_init_def)

text \<open>
  Claim C7. With every prerequisite present, a base image that the image element presents
  and an overlay canvas of the same size, at least 1 by 1, \<open>handleSaveComposite\<close> hands over
  one new image of that size whose every pixel is the alpha-over blend of the overlay pixel
  over the base pixel at the same position. A fully transparent overlay gives the base, pixel
  for pixel; a fully opaque overlay gives the overlay. The new image carries the drawn
  identifier, the prompt of the source marked \<open>[MASKED]\<close>, the aspect ratio of the source and
  the current time.
\<close>

theorem composite_is_alpha_over:
  assumes "previewImage g = Some p" and "canvasRef g = Some cvs"
    and "imageRef g = Some el" and "shown el = Some base"
    and "onAddImage g" and "context_ok g"
    and "width (bitmap cvs) = width base" and "height (bitmap cvs) = height base"
    and "0 < width base" and "0 < height base"
  shows "\<exists>out. added (handleSaveComposite uuid now g) = added g @ [out]
    \<and> prompt out = ''[MASKED] '' @ prompt p \<and> aspectRatio out = aspectRatio p
    \<and> image_id out = uuid \<and> timestamp out = now
    \<and> width (url out) = width base \<and> height (url out) = height base
    \<and> (\<forall>x y. x < width base \<and> y < height base \<longrightarrow>
          px (url out) x y = source_over (px (bitmap cvs) x y) (px base x y))
    \<and> ((\<forall>x y. x < width base \<and> y < height base \<longrightarrow> px (bitmap cvs) x y = transparent) \<longrightarrow>
        (\<forall>x y. x < width base \<and> y < height base \<longrightarrow> px (url out) x y = px base x y))
    \<and> ((\<forall>x y. x < width base \<and> y < height base \<longrightarrow> alpha (px (bitmap cvs) x y) = 1) \<longrightarrow>
        (\<forall>x y. x < width base \<and> y < height base \<longrightarrow> px (url out) x y = px (bitmap cvs) x y))"
proof -
  let ?temp = "set_height (height base) (set_width (width base) createCanvas)"
  let ?t1 = "drawImage base 0 0 ?temp"
  let ?t2 = "drawImage (bitmap cvs) 0 0 ?t1"
  let ?out = "\<lparr>image_id = uuid, url = toDataURL ?t2, fullGridUrl = None,
      prompt = ''[MASKED] '' @ prompt p, aspectRatio = aspectRatio p, timestamp = now\<rparr>"
  have n: "naturalWidth el = width base" "naturalHeight el = height base"
    using assms(4) by (simp_all add: naturalWidth_def naturalHeight_def)
  have d1: "drawImage_element el ?temp = ?t1"
    using assms(4,9,10) by (simp add: drawImage_element_def)
  have d2: "drawImage_canvas (bitmap cvs) ?t1 = Some ?t2"
    using assms(7-10) by (simp add: drawImage_canvas_def)
  have res: "handleSaveComposite uuid now g
      = rerender False g (g\<lparr>added := added g @ [?out], previewImage := None\<rparr>)"
    using assms(1-3,5,6) by (simp add: handleSaveComposite_def n d1 d2 Let_def)
  have add: "added (handleSaveComposite uuid now g) = added g @ [?out]"
    unfolding res by (simp add: rerender_def mount_def sizeCanvasEffect_def Let_def)
  have dims: "width (url ?out) = width base" "height (url ?out) = height base"
    using assms(7-10)
    by (simp_all add: toDataURL_def drawImage_def drawImage_sub_def set_height_def set_width_def
          blank_def)
  have pix: "px (url ?out) x y = source_over (px (bitmap cvs) x y) (px base x y)"
    if "x < width base \<and> y < height base" for x y
    using that assms(7-10)
    by (simp add: toDataURL_def drawImage_def drawImage_sub_def set_height_def set_width_def
          blank_def source_over_transparent_dst)
  have transp: "px (url ?out) x y = px base x y"
    if "\<forall>x y. x < width base \<and> y < height base \<longrightarrow> px (bitmap cvs) x y = transparent"
      and "x < width base \<and> y < height base" for x y
    using that pix[of x y] by (simp add: source_over_def transparent_def)
  have opaque: "px (url ?out) x y = px (bitmap cvs) x y"
    if "\<forall>x y. x < width base \<and> y < height base \<longrightarrow> alpha (px (bitmap cvs) x y) = 1"
      and "x < width base \<and> y < height base" for x y
    using that pix[of x y] by (simp add: source_over_def)
  show ?thesis
    apply (rule exI[of _ ?out])
    apply (intro conjI allI impI)
            apply (rule add)
           apply simp
          apply simp
         apply simp
        apply simp
       apply (rule dims(1))
      apply (rule dims(2))
     apply (erule pix)
    apply (erule (1) transp)
    apply (erule (1) opaque)
    done
qed

text \<open>
  A transparent overlay over the test image gives the test image; the test image, which is
  opaque, as overlay over a transparent base gives the test image.
\<close>

theorem composite_is_alpha_over_witness:
  "(\<exists>out. added (handleSaveComposite ''id'' 7 (composing_state (test_image 8 6) (blank 8 6))) = [out]
      \<and> width (url out) = 8 \<and> height (url out) = 6
      \<and> px (url out) 3 2 = px (test_image 8 6) 3 2)
   \<and> (\<exists>out. added (handleSaveComposite ''id'' 7 (composing_state (blank 8 6) (test_image 8 6))) = [out]
      \<and> px (url out) 3 2 = px (test_image 8 6) 3 2)"
proof -
  let ?g = "composing_state (test_image 8 6) (blank 8 6)"
  let ?h = "composing_state (blank 8 6) (test_image 8 6)"
  have t: "width (test_image 8 6) = 8" "height (test_image 8 6) = 6"
    "width (blank 8 6) = 8" "height (blank 8 6) = 6"
    by (simp_all add: test_image_def blank_def)
  have s: "shown (loaded_img b) = Some b" for b by (simp add: loaded_img_def)
  have g: "previewImage ?g = Some (image_A\<lparr>url := test_image 8 6\<rparr>)"
    "canvasRef ?g = Some \<lparr>bitmap = blank 8 6, ctx = default_context\<rparr>"
    "imageRef ?g = Some (loaded_img (test_image 8 6))" "shown (loaded_img (test_image 8 6)) = Some (test_image 8 6)"
    "onAddImage ?g" "context_ok ?g" "added ?g = []"
    by (simp_all add: composing_state_def gallery_init_def s)
  have h: "previewImage ?h = Some (image_A\<lparr>url := blank 8 6\<rparr>)"
    "canvasRef ?h = Some \<lparr>bitmap = test_image 8 6, ctx = default_context\<rparr>"
    "imageRef ?h = Some (loaded_img (blank 8 6))" "shown (loaded_img (blank 8 6)) = Some (blank 8 6)"
    "onAddImage ?h" "context_ok ?h" "added ?h = []"
    by (simp_all add: composing_state_def gallery_init_def s)
  from composite_is_alpha_over[OF g(1-6), of "''id''" 7]
  obtain out where o: "added (handleSaveComposite ''id'' 7 ?g) = added ?g @ [out]"
    "width (url out) = width (test_image 8 6)" "height (url out) = height (test_image 8 6)"
    "(\<forall>x y. x < width (test_image 8 6) \<and> y < height (test_image 8 6) \<longrightarrow>
        px (bitmap \<lparr>bitmap = blank 8 6, ctx = default_context\<rparr>) x y = transparent) \<longrightarrow>
     (\<forall>x y. x < width (test_image 8 6) \<and> y < height (test_image 8 6) \<longrightarrow>
        px (url out) x y = px (test_image 8 6) x y)"
    by (simp add: t) blast
  have "\<forall>x y. x < width (test_image 8 6) \<and> y < height (test_image 8 6) \<longrightarrow>
        px (bitmap \<lparr>bitmap = blank 8 6, ctx = default_context\<rparr>) x y = transparent"
    by (simp add: blank_def)
  with o(4) have "px (url out) 3 2 = px (test_image 8 6) 3 2" by (simp add: t)
  with o g(7) have first: "\<exists>out. added (handleSaveComposite ''id'' 7 ?g) = [out]
      \<and> width (url out) = 8 \<and> height (url out) = 6
      \<and> px (url out) 3 2 = px (test_image 8 6) 3 2"
    by (simp add: t)
  from composite_is_alpha_over[OF h(1-6), of "''id''" 7]
  obtain out' where o': "added (handleSaveComposite ''id'' 7 ?h) = added ?h @ [out']"
    "(\<forall>x y. x < width (blank 8 6) \<and> y < height (blank 8 6) \<longrightarrow>
        alpha (px (bitmap \<lparr>bitmap = test_image 8 6, ctx = default_context\<rparr>) x y) = 1) \<longrightarrow>
     (\<forall>x y. x < width (blank 8 6) \<and> y < height (blank 8 6) \<longrightarrow>
        px (url out') x y = px (bitmap \<lparr>bitmap = test_image 8 6, ctx = default_context\<rparr>) x y)"
    by (simp add: t) blast
  have "\<forall>x y. x < width (blank 8 6) \<and> y < height (blank 8 6) \<longrightarrow>
        alpha (px (bitmap \<lparr>bitmap = test_image 8 6, ctx = default_context\<rparr>) x y) = 1"
    by (simp add: test_image_def)
  with o'(2) have "px (url out') 3 2 = px (test_image 8 6) 3 2" by (simp add: t)
  with o' h(7) have second: "\<exists>out. added (handleSaveComposite ''id'' 7 ?h) = [out]
      \<and> px (url out) 3 2 = px (test_image 8 6) 3 2"
    by simp
  from first second show ?thesis by blast
qed

section \<open>Properties of closing and opening the editor\<close>

lemma closed_refs:
  "session_inv g \<Longrightarrow> previewImage g = None \<Longrightarrow> canvasRef g = None \<and> imageRef g = None"
  by (simp add: session_inv_def)

lemma close_step:
  assumes "session_inv g"
  shows "previewImage (gallery_step rnd ClosePreview g) = None
       \<and> canvasRef (gallery_step rnd ClosePreview g) = None
       \<and> imageRef (gallery_step rnd ClosePreview g) = None
       \<and> added (gallery_step rnd ClosePreview g) = added g
       \<and> uncaught (gallery_step rnd ClosePreview g) = uncaught g
       \<and> snapshotRef (gallery_step rnd ClosePreview g) = snapshotRef g
       \<and> isDrawing (gallery_step rnd ClosePreview g) = isDrawing g
       \<and> context_ok (gallery_step rnd ClosePreview g) = context_ok g"
proof (cases "previewImage g")
  case None
  then show ?thesis using closed_refs[OF assms None] by (simp add: gallery_step_def)
next
  case (Some p)
  then show ?thesis
    by (simp add: gallery_step_def closePreview_def rerender_def mount_def sizeCanvasEffect_def
          Let_def)
qed

lemma fresh_canvas_sized:
  "assign_height h (assign_width w k) = \<lparr>bitmap = blank w h, ctx = default_context\<rparr>"
  "ctx_clearRect 0 0 w h (assign_height h (assign_width w k))
     = \<lparr>bitmap = blank w h, ctx = default_context\<rparr>"
  by (simp_all add: assign_height_def assign_width_def set_height_def set_width_def
        ctx_clearRect_def clearRect_def blank_def fun_eq_iff)

lemma clear_blank:
  "ctx_clearRect x0 y0 w' h' \<lparr>bitmap = blank w h, ctx = c\<rparr> = \<lparr>bitmap = blank w h, ctx = c\<rparr>"
  by (simp add: ctx_clearRect_def clearRect_def blank_def fun_eq_iff)

lemma fresh_canvas_default:
  "width (bitmap new_canvas) = w \<Longrightarrow> height (bitmap new_canvas) = h \<Longrightarrow>
   new_canvas = \<lparr>bitmap = blank w h, ctx = default_context\<rparr>"
  by (auto simp: new_canvas_def createCanvas_def blank_def)

lemma effect_on_fresh_canvas:
  assumes "previewImage c = Some p" and "canvasRef c = Some new_canvas" and "imageRef c = Some el"
  shows "canvasRef (sizeCanvasEffect c)
           = Some \<lparr>bitmap = blank (naturalWidth el) (naturalHeight el), ctx = default_context\<rparr>"
proof (cases "width (bitmap new_canvas) \<noteq> naturalWidth el
                \<or> height (bitmap new_canvas) \<noteq> naturalHeight el")
  case True
  then show ?thesis
    using assms by (simp add: sizeCanvasEffect_def Let_def fresh_canvas_sized clear_blank)
next
  case False
  then have "new_canvas = \<lparr>bitmap = blank (naturalWidth el) (naturalHeight el), ctx = default_context\<rparr>"
    by (intro fresh_canvas_default) simp_all
  then show ?thesis
    using assms False by (simp add: sizeCanvasEffect_def Let_def)
qed

lemma open_after_close:
  assumes "previewImage c = None" and "canvasRef c = None" and "imageRef c = None"
  shows "canvasRef (gallery_step rnd (ImageClick img available) c)
           = Some \<lparr>bitmap = blank (naturalWidth (create_img available (url img)))
                              (naturalHeight (create_img available (url img))),
                   ctx = default_context\<rparr>
       \<and> previewImage (gallery_step rnd (ImageClick img available) c) = Some img
       \<and> imageRef (gallery_step rnd (ImageClick img available) c)
           = Some (create_img available (url img))
       \<and> \<not> isPainting (gallery_step rnd (ImageClick img available) c)
       \<and> activeTool (gallery_step rnd (ImageClick img available) c) = Brush
       \<and> snapshotRef (gallery_step rnd (ImageClick img available) c) = snapshotRef c
       \<and> isDrawing (gallery_step rnd (ImageClick img available) c) = isDrawing c
       \<and> added (gallery_step rnd (ImageClick img available) c) = added c
       \<and> uncaught (gallery_step rnd (ImageClick img available) c) = uncaught c"
proof -
  let ?n = "c\<lparr>previewImage := Some img, isPainting := False, activeTool := Brush\<rparr>"
  let ?m = "mount available ?n"
  have m: "previewImage ?m = Some img" "canvasRef ?m = Some new_canvas"
    "imageRef ?m = Some (create_img available (url img))"
    using assms by (simp_all add: mount_def)
  have step: "gallery_step rnd (ImageClick img available) c = sizeCanvasEffect ?m"
    using assms(1) by (simp add: gallery_step_def handleImageClick_def rerender_def Let_def)
  have other: "previewImage (sizeCanvasEffect ?m) = Some img"
    "imageRef (sizeCanvasEffect ?m) = Some (create_img available (url img))"
    "\<not> isPainting (sizeCanvasEffect ?m)" "activeTool (sizeCanvasEffect ?m) = Brush"
    "snapshotRef (sizeCanvasEffect ?m) = snapshotRef c" "isDrawing (sizeCanvasEffect ?m) = isDrawing c"
    "added (sizeCanvasEffect ?m) = added c" "uncaught (sizeCanvasEffect ?m) = uncaught c"
    using assms by (simp_all add: sizeCanvasEffect_def mount_def Let_def)
  show ?thesis
    unfolding step using effect_on_fresh_canvas[OF m] other by simp
qed

text \<open>
  Claim C9 says that closing the editor or opening another image discards the whole paint
  session, the pre-stroke snapshot included. The snapshot is kept: after a stroke on the
  first image, closing the editor and opening the second image leaves \<open>snapshotRef\<close> holding
  the snapshot taken on the first image.
\<close>

theorem session_destroyed_counterexample:
  "snapshotRef (gallery_run test_renderer
      [ImageClick image_A True, TogglePainting, MouseDown \<lparr>clientX = 12, clientY = 22\<rparr>, MouseUp,
       ClosePreview, ImageClick image_B True] (gallery_init True True screen_rect))
     = snapshotRef (gallery_run test_renderer
      [ImageClick image_A True, TogglePainting, MouseDown \<lparr>clientX = 12, clientY = 22\<rparr>, MouseUp]
      (gallery_init True True screen_rect))
   \<and> snapshotRef (gallery_run test_renderer
      [ImageClick image_A True, TogglePainting, MouseDown \<lparr>clientX = 12, clientY = 22\<rparr>, MouseUp,
       ClosePreview, ImageClick image_B True] (gallery_init True True screen_rect)) \<noteq> None
   \<and> previewImage (gallery_run test_renderer
      [ImageClick image_A True, TogglePainting, MouseDown \<lparr>clientX = 12, clientY = 22\<rparr>, MouseUp,
       ClosePreview, ImageClick image_B True] (gallery_init True True screen_rect)) = Some image_B"
proof -
  let ?evs = "[ImageClick image_A True, TogglePainting, MouseDown \<lparr>clientX = 12, clientY = 22\<rparr>,
      MouseUp]"
  let ?g = "gallery_run test_renderer ?evs (gallery_init True True screen_rect)"
  let ?c = "gallery_step test_renderer ClosePreview ?g"
  have run: "gallery_run test_renderer
      [ImageClick image_A True, TogglePainting, MouseDown \<lparr>clientX = 12, clientY = 22\<rparr>, MouseUp,
       ClosePreview, ImageClick image_B True] (gallery_init True True screen_rect)
      = gallery_step test_renderer (ImageClick image_B True) ?c"
    by simp
  have inv: "session_inv ?g" by (rule gallery_run_inv) (rule gallery_init_inv)
  note c = close_step[OF inv, of test_renderer]
  from c have c1: "previewImage ?c = None" and c2: "canvasRef ?c = None"
    and c3: "imageRef ?c = None" by simp_all
  note o = open_after_close[OF c1 c2 c3, of test_renderer image_B True]
  have s: "snapshotRef ?g \<noteq> None"
    by (simp add: gallery_eval image_A_def test_image_def)
  show ?thesis
    unfolding run using c o s by simp
qed

text \<open>
  Claim C9 as amended. In every state the gallery reaches, closing the editor unmounts the
  overlay canvas and the image, whatever has been painted, and hands nothing to
  \<open>onAddImage\<close> and raises nothing: no warning, no autosave. Whatever image is opened next,
  decoded already or not, gets a freshly mounted, fully transparent overlay, with the
  painting mode off and the brush selected, regardless of the sizes of the two images. The
  drawing flag and the pre-stroke snapshot are not reset by closing and opening.
\<close>

theorem close_then_open_starts_empty:
  "previewImage (gallery_step rnd ClosePreview (gallery_run rnd evs (gallery_init a ok r))) = None
   \<and> canvasRef (gallery_step rnd ClosePreview (gallery_run rnd evs (gallery_init a ok r))) = None
   \<and> imageRef (gallery_step rnd ClosePreview (gallery_run rnd evs (gallery_init a ok r))) = None
   \<and> added (gallery_step rnd ClosePreview (gallery_run rnd evs (gallery_init a ok r)))
       = added (gallery_run rnd evs (gallery_init a ok r))
   \<and> uncaught (gallery_step rnd ClosePreview (gallery_run rnd evs (gallery_init a ok r)))
       = uncaught (gallery_run rnd evs (gallery_init a ok r))
   \<and> (\<exists>w h. canvasRef (gallery_run rnd (evs @ [ClosePreview, ImageClick img available])
                 (gallery_init a ok r))
              = Some \<lparr>bitmap = blank w h, ctx = default_context\<rparr>)
   \<and> previewImage (gallery_run rnd (evs @ [ClosePreview, ImageClick img available])
        (gallery_init a ok r)) = Some img
   \<and> (\<exists>el. imageRef (gallery_run rnd (evs @ [ClosePreview, ImageClick img available])
                (gallery_init a ok r)) = Some el \<and> src el = url img)
   \<and> isPainting (gallery_run rnd (evs @ [ClosePreview, ImageClick img available])
        (gallery_init a ok r)) = False
   \<and> activeTool (gallery_run rnd (evs @ [ClosePreview, ImageClick img available])
        (gallery_init a ok r)) = Brush
   \<and> added (gallery_run rnd (evs @ [ClosePreview, ImageClick img available])
        (gallery_init a ok r)) = added (gallery_run rnd evs (gallery_init a ok r))
   \<and> snapshotRef (gallery_run rnd (evs @ [ClosePreview, ImageClick img available])
        (gallery_init a ok r)) = snapshotRef (gallery_run rnd evs (gallery_init a ok r))
   \<and> isDrawing (gallery_run rnd (evs @ [ClosePreview, ImageClick img available])
        (gallery_init a ok r)) = isDrawing (gallery_run rnd evs (gallery_init a ok r))"
proof -
  let ?g = "gallery_run rnd evs (gallery_init a ok r)"
  let ?c = "gallery_step rnd ClosePreview ?g"
  have run: "gallery_run rnd (evs @ [ClosePreview, ImageClick img available]) (gallery_init a ok r)
      = gallery_step rnd (ImageClick img available) ?c"
    by (simp add: gallery_run_append)
  have inv: "session_inv ?g" by (rule gallery_run_inv) (rule gallery_init_inv)
  note c = close_step[OF inv, of rnd]
  from c have c1: "previewImage ?c = None" and c2: "canvasRef ?c = None"
    and c3: "imageRef ?c = None" by simp_all
  note o = open_after_close[OF c1 c2 c3, of rnd img available]
  have s: "src (create_img available (url img)) = url img" by (simp add: create_img_def)
  from o have cv: "\<exists>w h. canvasRef (gallery_step rnd (ImageClick img available) ?c)
      = Some \<lparr>bitmap = blank w h, ctx = default_context\<rparr>"
    by blast
  from o s have im: "\<exists>el. imageRef (gallery_step rnd (ImageClick img available) ?c) = Some el
      \<and> src el = url img"
    by simp
  show ?thesis
    unfolding run using c o cv im by (intro conjI) simp_all
qed

text \<open>
  After a stroke on the first image, closing and opening the second image, which has the
  same size and is at hand, gives a transparent 8 by 6 overlay; opening it before it is
  decoded gives a transparent overlay too.
\<close>

theorem close_then_open_starts_empty_witness:
  "(\<exists>w h. canvasRef (gallery_run test_renderer
      ([ImageClick image_A True, TogglePainting, MouseDown \<lparr>clientX = 12, clientY = 22\<rparr>,
        MouseMove \<lparr>clientX = 14, clientY = 24\<rparr>, MouseUp] @ [ClosePreview, ImageClick image_B True])
      (gallery_init True True screen_rect))
     = Some \<lparr>bitmap = blank w h, ctx = default_context\<rparr>)
   \<and> previewImage (gallery_run test_renderer
      ([ImageClick image_A True, TogglePainting, MouseDown \<lparr>clientX = 12, clientY = 22\<rparr>,
        MouseMove \<lparr>clientX = 14, clientY = 24\<rparr>, MouseUp] @ [ClosePreview, ImageClick image_B True])
      (gallery_init True True screen_rect)) = Some image_B
   \<and> (\<exists>w h. canvasRef (gallery_run test_renderer
      ([ImageClick image_A True, TogglePainting, MouseDown \<lparr>clientX = 12, clientY = 22\<rparr>,
        MouseMove \<lparr>clientX = 14, clientY = 24\<rparr>, MouseUp] @ [ClosePreview, ImageClick image_B False])
      (gallery_init True True screen_rect))
     = Some \<lparr>bitmap = blank w h, ctx = default_context\<rparr>)"
  using close_then_open_starts_empty[where rnd = test_renderer
      and evs = "[ImageClick image_A True, TogglePainting, MouseDown \<lparr>clientX = 12, clientY = 22\<rparr>,
        MouseMove \<lparr>clientX = 14, clientY = 24\<rparr>, MouseUp]"
      and a = True and ok = True and r = screen_rect and img = image_B and available = True]
    close_then_open_starts_empty[where rnd = test_renderer
      and evs = "[ImageClick image_A True, TogglePainting, MouseDown \<lparr>clientX = 12, clientY = 22\<rparr>,
        MouseMove \<lparr>clientX = 14, clientY = 24\<rparr>, MouseUp]"
      and a = True and ok = True and r = screen_rect and img = image_B and available = False]
  by blast

section \<open>Properties of the rectangle tool\<close>

lemma getCoordinates_dims:
  "width (bitmap c) = width (bitmap c') \<Longrightarrow> height (bitmap c) = height (bitmap c') \<Longrightarrow>
   getCoordinates (Some c) i r e = getCoordinates (Some c') i r e"
  by (simp add: getCoordinates_def split: option.splits)

lemma draw_rect:
  assumes "isDrawing s" "isPainting s" "context_ok s" "activeTool s = Rect"
    and "canvasRef s = Some c" "snapshotRef s = Some snap"
  shows "draw rnd e s
     = s\<lparr>canvasRef := Some (spec_rect_direct rnd snap (startPosRef s)
                            (getCoordinates (Some c) (imageRef s) (clientRect s) e) c)\<rparr>"
  using assms by (simp add: draw_def spec_rect_direct_def Let_def split_beta)

lemma spec_rect_direct_dims [simp]:
  "width (bitmap (spec_rect_direct rnd snap a p c)) = width (bitmap c)"
  "height (bitmap (spec_rect_direct rnd snap a p c)) = height (bitmap c)"
  by (simp_all add: spec_rect_direct_def)

lemma ctx_rect: "(ctx (rect x y w h c))\<lparr>path := []\<rparr> = (ctx c)\<lparr>path := []\<rparr>"
  by (simp add: rect_def split: jsnum.splits)

lemma rect_cong:
  "bitmap c = bitmap c' \<Longrightarrow> ctx c = ctx c' \<Longrightarrow> rect x y w h c = rect x y w h c'"
  by (cases c, cases c') simp

lemma restore_absorbs:
  assumes "width snap = width (bitmap c)" "height snap = height (bitmap c)"
  shows "beginPath (putImageData snap (spec_rect_direct rnd snap a p c)) = beginPath (putImageData snap c)"
proof -
  have b: "bitmap (putImageData snap (spec_rect_direct rnd snap a p c)) = bitmap (putImageData snap c)"
    using assms
    by (simp add: putImageData_def spec_rect_direct_def stroke_def rect_def beginPath_def fun_eq_iff
          split: jsnum.splits)
  have "(ctx (spec_rect_direct rnd snap a p c))\<lparr>path := []\<rparr> = (ctx c)\<lparr>path := []\<rparr>"
    by (simp add: spec_rect_direct_def stroke_def ctx_rect beginPath_def putImageData_def)
  then have x: "ctx (beginPath (putImageData snap (spec_rect_direct rnd snap a p c)))
      = ctx (beginPath (putImageData snap c))"
    by (simp add: beginPath_def putImageData_def)
  have y: "bitmap (beginPath (putImageData snap (spec_rect_direct rnd snap a p c)))
      = bitmap (beginPath (putImageData snap c))"
    using b by simp
  show ?thesis
    by (rule canvas_element.equality) (simp_all add: x b)
qed

lemma spec_rect_direct_absorbs:
  assumes "width snap = width (bitmap c)" "height snap = height (bitmap c)"
  shows "spec_rect_direct rnd snap a p (spec_rect_direct rnd snap a' p' c) = spec_rect_direct rnd snap a p c"
  unfolding spec_rect_direct_def[of rnd snap a p] by (simp only: restore_absorbs[OF assms])

lemma draw_absorbs:
  assumes "rect_mode s"
  shows "draw rnd e2 (draw rnd e1 s) = draw rnd e2 s \<and> rect_mode (draw rnd e1 s)"
proof -
  from assms obtain c snap where s: "isDrawing s" "isPainting s" "context_ok s"
    "activeTool s = Rect" "canvasRef s = Some c" "snapshotRef s = Some snap"
    and d: "width snap = width (bitmap c)" "height snap = height (bitmap c)"
    and p: "previewImage s \<noteq> None"
    by (auto simp: rect_mode_def split: option.splits)
  let ?c1 = "spec_rect_direct rnd snap (startPosRef s) (getCoordinates (Some c) (imageRef s) (clientRect s) e1) c"
  have d1: "draw rnd e1 s = s\<lparr>canvasRef := Some ?c1\<rparr>" by (rule draw_rect[OF s])
  have m: "rect_mode (s\<lparr>canvasRef := Some ?c1\<rparr>)"
    using s d p by (simp add: rect_mode_def)
  have g: "getCoordinates (Some ?c1) (imageRef s) (clientRect s) e2
      = getCoordinates (Some c) (imageRef s) (clientRect s) e2"
    by (rule getCoordinates_dims) simp_all
  have "draw rnd e2 (s\<lparr>canvasRef := Some ?c1\<rparr>)
      = s\<lparr>canvasRef := Some (spec_rect_direct rnd snap (startPosRef s)
            (getCoordinates (Some ?c1) (imageRef s) (clientRect s) e2) ?c1)\<rparr>"
    using s by (subst draw_rect[where c = ?c1 and snap = snap]) simp_all
  also have "\<dots> = s\<lparr>canvasRef := Some (spec_rect_direct rnd snap (startPosRef s)
            (getCoordinates (Some c) (imageRef s) (clientRect s) e2) c)\<rparr>"
    by (simp only: g spec_rect_direct_absorbs[OF d])
  also have "\<dots> = draw rnd e2 s" by (rule draw_rect[OF s, symmetric])
  finally have "draw rnd e2 (s\<lparr>canvasRef := Some ?c1\<rparr>) = draw rnd e2 s" .
  with m show ?thesis by (simp only: d1) 
qed

lemma moves_absorb:
  "rect_mode s \<Longrightarrow> es \<noteq> [] \<Longrightarrow>
   gallery_run rnd (map MouseMove es) s = draw rnd (last es) s"
proof (induction es arbitrary: s)
  case Nil
  then show ?case by simp
next
  case (Cons e es)
  from Cons.prems(1) have p: "previewImage s \<noteq> None" by (simp add: rect_mode_def)
  have step: "gallery_step rnd (MouseMove e) s = draw rnd e s"
    using p by (auto simp: gallery_step_def)
  show ?case
  proof (cases "es = []")
    case True
    then show ?thesis using step by simp
  next
    case False
    from draw_absorbs[OF Cons.prems(1), of rnd "last es" e]
    have a: "draw rnd (last es) (draw rnd e s) = draw rnd (last es) s"
      and m: "rect_mode (draw rnd e s)" by simp_all
    have "gallery_run rnd (map MouseMove (e # es)) s = gallery_run rnd (map MouseMove es) (draw rnd e s)"
      using step by simp
    also have "\<dots> = draw rnd (last es) (draw rnd e s)" by (rule Cons.IH[OF m False])
    finally show ?thesis using a False by simp
  qed
qed


lemma start_rect:
  assumes "isPainting g" "context_ok g" "activeTool g = Rect" "canvasRef g = Some cvs"
    and "0 < width (bitmap cvs)" "0 < height (bitmap cvs)"
  shows "\<exists>snap cvs1.
      startDrawing e0 g
        = g\<lparr>isDrawing := True, snapshotRef := Some snap,
            startPosRef := getCoordinates (Some cvs) (imageRef g) (clientRect g) e0,
            canvasRef := Some cvs1\<rparr>
    \<and> bitmap cvs1 = bitmap cvs
    \<and> width snap = width (bitmap cvs) \<and> height snap = height (bitmap cvs)
    \<and> (\<forall>x y. x < width (bitmap cvs) \<and> y < height (bitmap cvs) \<longrightarrow>
          px snap x y = px (bitmap cvs) x y)"
proof -
  let ?snap = "\<lparr>width = width (bitmap cvs), height = height (bitmap cvs),
      px = (\<lambda>x y. if x < width (bitmap cvs) \<and> y < height (bitmap cvs)
                      \<and> x < width (bitmap cvs) \<and> y < height (bitmap cvs)
                    then px (bitmap cvs) x y else transparent)\<rparr>"
  let ?cvs2 = "assign_lineWidth
      (js_mul (Num (brushSize g)) (js_div (of_nat (width (bitmap cvs))) 1000))
      (cvs\<lparr>ctx := (ctx cvs)\<lparr>strokeStyle := ''rgba(0, 255, 0, 0.8)''\<rparr>\<rparr>)"
  let ?cvs1 = "?cvs2\<lparr>ctx := (ctx ?cvs2)\<lparr>lineCap := ''round'', lineJoin := ''round''\<rparr>\<rparr>"
  have 1: "startDrawing e0 g
        = g\<lparr>isDrawing := True, snapshotRef := Some ?snap,
            startPosRef := getCoordinates (Some cvs) (imageRef g) (clientRect g) e0,
            canvasRef := Some ?cvs1\<rparr>"
    using assms
    by (simp add: startDrawing_def getImageData_def Let_def split_beta del: js_mul.simps)
  have 2: "bitmap ?cvs1 = bitmap cvs" by simp
  have 3: "width ?snap = width (bitmap cvs)" "height ?snap = height (bitmap cvs)" by simp_all
  have 4: "\<forall>x y. x < width (bitmap cvs) \<and> y < height (bitmap cvs) \<longrightarrow>
          px ?snap x y = px (bitmap cvs) x y" by simp
  show ?thesis
    apply (rule exI[of _ ?snap])
    apply (rule exI[of _ ?cvs1])
    apply (intro conjI)
        apply (rule 1)
       apply (rule 2)
      apply (rule 3(1))
     apply (rule 3(2))
    apply (rule 4)
    done
qed

lemma spec_rect_direct_pixels:
  assumes "width snap = width (bitmap c)" "height snap = height (bitmap c)"
    and "x < width (bitmap c)" "y < height (bitmap c)"
  shows "px (bitmap (spec_rect_direct rnd snap a p c)) x y
       = source_over (rnd (ctx (spec_rect_direct rnd snap a p c)) x y) (px snap x y)"
  using assms by (simp add: spec_rect_direct_def stroke_def putImageData_def)

lemma spec_rect_direct_path:
  assumes "js_sub (Num bx) (Num ax) = Num w" and "js_sub (Num by) (Num ay) = Num h"
  shows "path (ctx (spec_rect_direct rnd snap (Num ax, Num ay) (Num bx, Num by) c))
     = [RectPath ax ay w h]"
  using assms by (simp add: spec_rect_direct_def stroke_def rect_def beginPath_def)

lemma idle_moves:
  "\<not> isDrawing s \<Longrightarrow> gallery_run rnd (map MouseMove es) s = s"
  by (induction es) (simp_all add: gallery_step_def draw_def)

text \<open>
  Claim C4. In painting mode with the rectangle tool, from any overlay of at least 1 by 1
  and any anchor, a pointer-down followed by \<open>N \<ge> 1\<close> pointer-moves leaves the same state as
  the pointer-down followed by the last move alone. The overlay then is the reference
  drawing: the snapshot taken at pointer-down restored once and the one rectangle from the
  anchor to the last point drawn on it. Every pixel is the paint of that one stroke over the
  pixel the overlay had before the stroke, and the path holds the last rectangle and nothing
  else, its width and height the differences of the mapped coordinates as doubles.
  Pointer-up, and the pointer leaving the canvas, commit this overlay: the drawing flag is
  cleared, and whatever pointer-moves follow, the overlay stays the reference drawing, never
  restored again.
\<close>

theorem rect_preview_is_final_rectangle:
  assumes "previewImage g \<noteq> None" and "isPainting g" and "context_ok g"
    and "activeTool g = Rect" and "canvasRef g = Some cvs"
    and "0 < width (bitmap cvs)" and "0 < height (bitmap cvs)" and "es \<noteq> []"
  shows "\<exists>snap cvs1 final.
      snapshotRef (startDrawing e0 g) = Some snap
    \<and> canvasRef (startDrawing e0 g) = Some cvs1
    \<and> bitmap cvs1 = bitmap cvs
    \<and> (\<forall>x y. x < width (bitmap cvs) \<and> y < height (bitmap cvs) \<longrightarrow>
          px snap x y = px (bitmap cvs) x y)
    \<and> gallery_run rnd (MouseDown e0 # map MouseMove es) g = draw rnd (last es) (startDrawing e0 g)
    \<and> canvasRef (gallery_run rnd (MouseDown e0 # map MouseMove es) g) = Some final
    \<and> final = spec_rect_direct rnd snap (getCoordinates (Some cvs) (imageRef g) (clientRect g) e0)
                  (getCoordinates (Some cvs) (imageRef g) (clientRect g) (last es)) cvs1
    \<and> width (bitmap final) = width (bitmap cvs) \<and> height (bitmap final) = height (bitmap cvs)
    \<and> (\<forall>x y. x < width (bitmap cvs) \<and> y < height (bitmap cvs) \<longrightarrow>
          px (bitmap final) x y = source_over (rnd (ctx final) x y) (px (bitmap cvs) x y))
    \<and> (\<forall>ax ay bx by w h.
          getCoordinates (Some cvs) (imageRef g) (clientRect g) e0 = (Num ax, Num ay)
          \<and> getCoordinates (Some cvs) (imageRef g) (clientRect g) (last es) = (Num bx, Num by)
          \<and> js_sub (Num bx) (Num ax) = Num w \<and> js_sub (Num by) (Num ay) = Num h \<longrightarrow>
          path (ctx final) = [RectPath ax ay w h])
    \<and> canvasRef (gallery_step rnd MouseUp (gallery_run rnd (MouseDown e0 # map MouseMove es) g))
        = Some final
    \<and> \<not> isDrawing (gallery_step rnd MouseUp (gallery_run rnd (MouseDown e0 # map MouseMove es) g))
    \<and> \<not> isDrawing (gallery_step rnd MouseLeave
            (gallery_run rnd (MouseDown e0 # map MouseMove es) g))
    \<and> (\<forall>es'. gallery_run rnd (MouseDown e0 # map MouseMove es @ MouseUp # map MouseMove es') g
          = gallery_step rnd MouseUp (gallery_run rnd (MouseDown e0 # map MouseMove es) g))
    \<and> (\<forall>es'. canvasRef
            (gallery_run rnd (MouseDown e0 # map MouseMove es @ MouseUp # map MouseMove es') g)
          = Some final)
    \<and> (\<forall>es'. canvasRef
            (gallery_run rnd (MouseDown e0 # map MouseMove es @ MouseLeave # map MouseMove es') g)
          = Some final)"
proof -
  let ?anchor = "getCoordinates (Some cvs) (imageRef g) (clientRect g) e0"
  let ?p = "getCoordinates (Some cvs) (imageRef g) (clientRect g) (last es)"
  from start_rect[OF assms(2,3,4,5,6,7), of e0]
  obtain snap cvs1 where
    s1: "startDrawing e0 g
        = g\<lparr>isDrawing := True, snapshotRef := Some snap, startPosRef := ?anchor,
            canvasRef := Some cvs1\<rparr>"
    and b: "bitmap cvs1 = bitmap cvs"
    and d: "width snap = width (bitmap cvs)" "height snap = height (bitmap cvs)"
    and sp: "\<forall>x y. x < width (bitmap cvs) \<and> y < height (bitmap cvs) \<longrightarrow>
          px snap x y = px (bitmap cvs) x y"
    by blast
  let ?s1 = "startDrawing e0 g"
  let ?final = "spec_rect_direct rnd snap ?anchor ?p cvs1"
  let ?run = "gallery_run rnd (MouseDown e0 # map MouseMove es) g"
  have f: "snapshotRef ?s1 = Some snap" "canvasRef ?s1 = Some cvs1" "startPosRef ?s1 = ?anchor"
    "isDrawing ?s1" "isPainting ?s1" "context_ok ?s1" "activeTool ?s1 = Rect"
    "imageRef ?s1 = imageRef g" "clientRect ?s1 = clientRect g" "previewImage ?s1 = previewImage g"
    using assms(2,3,4) by (simp_all add: s1)
  have mode: "rect_mode ?s1"
    using f assms(1) d b by (simp add: rect_mode_def)
  have down: "gallery_step rnd (MouseDown e0) g = ?s1"
    using assms(1) by (auto simp: gallery_step_def)
  have run: "?run = draw rnd (last es) ?s1"
    using moves_absorb[OF mode assms(8), of rnd] down by simp
  have gc: "getCoordinates (Some cvs1) (imageRef g) (clientRect g) (last es) = ?p"
    by (rule getCoordinates_dims) (simp_all add: b)
  have dr: "draw rnd (last es) ?s1 = ?s1\<lparr>canvasRef := Some ?final\<rparr>"
    using draw_rect[OF f(4,5,6,7,2,1), of rnd "last es"] by (simp only: f(3,8,9) gc)
  have cf: "canvasRef ?run = Some ?final"
    by (simp only: run dr) simp
  have pf: "previewImage ?run \<noteq> None"
    using assms(1) f(10) by (simp only: run dr) simp
  have ip: "isPainting ?run"
    using f(5) by (simp only: run dr) simp
  have up: "gallery_step rnd MouseUp ?run = stopDrawing ?run"
    and leave: "gallery_step rnd MouseLeave ?run = stopDrawing ?run"
    using pf ip by (auto simp: gallery_step_def)
  have upc: "canvasRef (gallery_step rnd MouseUp ?run) = Some ?final"
    unfolding up using cf by (simp add: stopDrawing_def)
  have upd: "\<not> isDrawing (gallery_step rnd MouseUp ?run)"
    unfolding up by (simp add: stopDrawing_def)
  have leaved: "\<not> isDrawing (gallery_step rnd MouseLeave ?run)"
    unfolding leave by (simp add: stopDrawing_def)
  have split: "gallery_run rnd (MouseDown e0 # map MouseMove es @ ev # map MouseMove es') g
      = gallery_run rnd (map MouseMove es') (gallery_step rnd ev ?run)" for ev es'
    using gallery_run_append[of rnd "MouseDown e0 # map MouseMove es" "ev # map MouseMove es'" g]
    by simp
  have after_up: "gallery_run rnd (MouseDown e0 # map MouseMove es @ MouseUp # map MouseMove es') g
      = gallery_step rnd MouseUp ?run" for es'
    unfolding split by (rule idle_moves) (rule upd)
  have after_leave: "gallery_run rnd (MouseDown e0 # map MouseMove es @ MouseLeave # map MouseMove es') g
      = gallery_step rnd MouseLeave ?run" for es'
    unfolding split by (rule idle_moves) (rule leaved)
  have upc': "canvasRef (gallery_run rnd (MouseDown e0 # map MouseMove es @ MouseUp # map MouseMove es') g)
      = Some ?final" for es'
    unfolding after_up by (rule upc)
  have leavec': "canvasRef
      (gallery_run rnd (MouseDown e0 # map MouseMove es @ MouseLeave # map MouseMove es') g)
      = Some ?final" for es'
    unfolding after_leave leave using cf by (simp add: stopDrawing_def)
  have dims: "width (bitmap ?final) = width (bitmap cvs)" "height (bitmap ?final) = height (bitmap cvs)"
    by (simp_all add: b)
  have pix: "px (bitmap ?final) x y = source_over (rnd (ctx ?final) x y) (px (bitmap cvs) x y)"
    if "x < width (bitmap cvs) \<and> y < height (bitmap cvs)" for x y
    using spec_rect_direct_pixels[of snap cvs1 x y rnd ?anchor ?p] that d b sp by simp
  have pth: "path (ctx ?final) = [RectPath ax ay w h]"
    if "?anchor = (Num ax, Num ay) \<and> ?p = (Num bx, Num by)
          \<and> js_sub (Num bx) (Num ax) = Num w \<and> js_sub (Num by) (Num ay) = Num h"
    for ax ay bx "by" w h
  proof -
    from that have a: "?anchor = (Num ax, Num ay)" and p: "?p = (Num bx, Num by)"
      and w: "js_sub (Num bx) (Num ax) = Num w" and h: "js_sub (Num by) (Num ay) = Num h"
      by blast+
    show ?thesis unfolding a p by (rule spec_rect_direct_path[OF w h])
  qed
  show ?thesis
    apply (rule exI[of _ snap])
    apply (rule exI[of _ cvs1])
    apply (rule exI[of _ ?final])
    apply (intro conjI allI impI)
                    apply (rule f(1))
                   apply (rule f(2))
                  apply (rule b)
                 apply (simp add: sp)
                apply (rule run)
               apply (rule cf)
              apply (rule refl)
             apply (rule dims(1))
            apply (rule dims(2))
           apply (erule pix)
          apply (erule pth)
         apply (rule upc)
        apply (rule upd)
       apply (rule leaved)
      apply (rule after_up)
     apply (rule upc')
    apply (rule leavec')
    done
qed


text \<open>
  Two moves on a transparent overlay: the result holds the rectangle from (2, 2) to (6, 4);
  the pixel (6, 3) of its outline is painted, and the pixel (4, 3), which was on the
  outline of the first preview, is transparent again. After pointer-up a further move
  changes nothing.
\<close>

theorem rect_preview_is_final_rectangle_witness:
  "\<exists>final. canvasRef (gallery_run test_renderer
        (MouseDown \<lparr>clientX = 1, clientY = 1\<rparr>
          # map MouseMove [\<lparr>clientX = 2, clientY = 2\<rparr>, \<lparr>clientX = 3, clientY = 2\<rparr>])
        rect_state) = Some final
     \<and> path (ctx final) = [RectPath 2 2 4 2]
     \<and> px (bitmap final) 6 3 = \<lparr>red = 0, green = 4 / 5, blue = 0, alpha = 4 / 5\<rparr>
     \<and> px (bitmap final) 4 3 = transparent
     \<and> canvasRef (gallery_run test_renderer
        (MouseDown \<lparr>clientX = 1, clientY = 1\<rparr>
          # map MouseMove [\<lparr>clientX = 2, clientY = 2\<rparr>, \<lparr>clientX = 3, clientY = 2\<rparr>]
          @ MouseUp # map MouseMove [\<lparr>clientX = 4, clientY = 3\<rparr>])
        rect_state) = Some final"
proof -
  let ?cvs = "\<lparr>bitmap = blank 8 6, ctx = default_context\<rparr>"
  let ?e0 = "\<lparr>clientX = 1, clientY = 1\<rparr>"
  let ?es = "[\<lparr>clientX = 2, clientY = 2\<rparr>, \<lparr>clientX = 3, clientY = 2\<rparr>]"
  have h: "previewImage rect_state \<noteq> None" "isPainting rect_state" "context_ok rect_state"
    "activeTool rect_state = Rect" "canvasRef rect_state = Some ?cvs"
    "0 < width (bitmap ?cvs)" "0 < height (bitmap ?cvs)" "?es \<noteq> []"
    by (simp_all add: rect_state_def composing_state_def gallery_init_def blank_def)
  have a: "getCoordinates (Some ?cvs) (imageRef rect_state) (clientRect rect_state) ?e0
      = (Num 2, Num 2)"
    by (simp add: rect_state_def composing_state_def gallery_init_def getCoordinates_def
          js_div_def small_rect_def blank_def fl_whole)
  have p: "getCoordinates (Some ?cvs) (imageRef rect_state) (clientRect rect_state) (last ?es)
      = (Num 6, Num 4)"
    by (simp add: rect_state_def composing_state_def gallery_init_def getCoordinates_def
          js_div_def small_rect_def blank_def fl_whole)
  have wh: "js_sub (Num 6) (Num 2) = Num 4" "js_sub (Num 4) (Num 2) = Num 2"
    by (simp_all add: fl_whole)
  from rect_preview_is_final_rectangle[OF h, where rnd = test_renderer and ?e0.0 = ?e0]
  obtain final where
    cf: "canvasRef (gallery_run test_renderer (MouseDown ?e0 # map MouseMove ?es) rect_state)
          = Some final"
    and pix: "\<forall>x y. x < width (bitmap ?cvs) \<and> y < height (bitmap ?cvs) \<longrightarrow>
          px (bitmap final) x y
            = source_over (test_renderer (ctx final) x y) (px (bitmap ?cvs) x y)"
    and pth: "\<forall>ax ay bx by w h.
          getCoordinates (Some ?cvs) (imageRef rect_state) (clientRect rect_state) ?e0
            = (Num ax, Num ay)
          \<and> getCoordinates (Some ?cvs) (imageRef rect_state) (clientRect rect_state) (last ?es)
            = (Num bx, Num by)
          \<and> js_sub (Num bx) (Num ax) = Num w \<and> js_sub (Num by) (Num ay) = Num h \<longrightarrow>
          path (ctx final) = [RectPath ax ay w h]"
    and aft: "\<forall>es'. canvasRef (gallery_run test_renderer
            (MouseDown ?e0 # map MouseMove ?es @ MouseUp # map MouseMove es') rect_state)
          = Some final"
    by blast
  from pth a p wh have path: "path (ctx final) = [RectPath 2 2 4 2]" by blast
  from pix[rule_format, of 6 3] have "px (bitmap final) 6 3
      = source_over (test_renderer (ctx final) 6 3) (px (bitmap ?cvs) 6 3)"
    by (simp add: blank_def)
  then have p1: "px (bitmap final) 6 3 = \<lparr>red = 0, green = 4 / 5, blue = 0, alpha = 4 / 5\<rparr>"
    by (simp add: test_renderer_def path blank_def source_over_def transparent_def)
  from pix[rule_format, of 4 3] have "px (bitmap final) 4 3
      = source_over (test_renderer (ctx final) 4 3) (px (bitmap ?cvs) 4 3)"
    by (simp add: blank_def)
  then have p2: "px (bitmap final) 4 3 = transparent"
    by (simp add: test_renderer_def path blank_def source_over_def transparent_def)
  note p3 = aft[rule_format, of "[\<lparr>clientX = 4, clientY = 3\<rparr>]"]
  from cf path p1 p2 p3 show ?thesis by blast
qed

end
